theory Spec2Isabelle
  imports Complex_Main "HOL-Library.Sublist" "HOL-Library.Multiset"
begin

section \<open>The list pages of the dashboard\<close>

text \<open>
  The repository is a React dashboard. Three of its pages are embedded here: the
  certificates page (\<^verbatim>\<open>src/unnamed/part_003\<close>), the SSH keys page
  (\<^verbatim>\<open>src/unnamed/part_001\<close>) and the audit log page
  (\<^verbatim>\<open>src/src/pages/AuditLogs.tsx\<close>). The record types are those of
  \<^verbatim>\<open>src/unnamed/part_004\<close>.

  A page is a function component: its \<^verbatim>\<open>useState\<close> cells are the fields of a
  record, an event handler is a function from the record to the record, the values
  computed while rendering (\<^verbatim>\<open>filteredData\<close>, \<^verbatim>\<open>totalPages\<close>,
  \<^verbatim>\<open>paginatedData\<close>) are functions of the record, and an effect is a function applied
  after the handler when one of its dependencies has changed. The browser's
  \<^verbatim>\<open>localStorage\<close> is a map from keys to strings carried in the record.

  A string is a list of characters. The pages compare strings for equality, test them
  for emptiness and look for one string in another; none of this depends on the alphabet.
  What the string functions of the platform compute (\<^verbatim>\<open>toLowerCase\<close>,
  \<^verbatim>\<open>trim\<close>) is not fixed here: they are parameters of the definitions.
\<close>

subsection \<open>The JavaScript library functions the pages call\<close>

text \<open>\<^verbatim>\<open>s.includes(q)\<close>: \<open>q\<close> occurs in \<open>s\<close> at some position.\<close>

fun str_includes :: "string \<Rightarrow> string \<Rightarrow> bool" where
  "str_includes [] q = (q = [])"
| "str_includes (c # s) q = (prefix q (c # s) \<or> str_includes s q)"

text \<open>
  \<^verbatim>\<open>Array.prototype.slice(start, end)\<close> with integer arguments: a negative index
  counts from the end, both indices are clamped to the array, and an empty range gives
  the empty array.
\<close>

definition slice :: "int \<Rightarrow> int \<Rightarrow> 'a list \<Rightarrow> 'a list" where
  "slice start fin xs =
     (let len = int (length xs);
          k = (if start < 0 then max (len + start) 0 else min start len);
          final = (if fin < 0 then max (len + fin) 0 else min fin len)
      in take (nat (final - k)) (drop (nat k) xs))"

text \<open>
  A JavaScript number that is an integer or \<^verbatim>\<open>NaN\<close>: \<open>None\<close> is
  \<^verbatim>\<open>NaN\<close>. Subtraction gives \<^verbatim>\<open>NaN\<close> when an operand is, and
  \<^verbatim>\<open><=\<close> is false when an operand is.
\<close>

type_synonym number = "int option"

definition num_minus :: "number \<Rightarrow> number \<Rightarrow> number" where
  "num_minus a b = (case a of None \<Rightarrow> None | Some x \<Rightarrow> (case b of None \<Rightarrow> None | Some y \<Rightarrow> Some (x - y)))"

definition num_le :: "number \<Rightarrow> number \<Rightarrow> bool" where
  "num_le a b = (case a of None \<Rightarrow> False | Some x \<Rightarrow> (case b of None \<Rightarrow> False | Some y \<Rightarrow> x \<le> y))"

text \<open>
  \<^verbatim>\<open>Array.prototype.sort(comparefn)\<close>. The language specification reads the
  comparator through \<^verbatim>\<open>SortCompare\<close>, which takes a \<^verbatim>\<open>NaN\<close> result as
  \<open>+0\<close>, and requires the sort to be stable: an element moves in front of another only
  when the comparator puts it strictly before. That is insertion from the right, each
  element placed before the first one it does not compare greater than. For a
  comparator that is not consistent, as one that returns \<^verbatim>\<open>NaN\<close> on some pairs
  only, the specification leaves the order to the implementation, and the insertion
  gives one of the orders it allows.
\<close>

definition SortCompare :: "('a \<Rightarrow> 'a \<Rightarrow> number) \<Rightarrow> 'a \<Rightarrow> 'a \<Rightarrow> int" where
  "SortCompare comparefn x y = (case comparefn x y of None \<Rightarrow> 0 | Some v \<Rightarrow> v)"

fun sort_insert :: "('a \<Rightarrow> 'a \<Rightarrow> number) \<Rightarrow> 'a \<Rightarrow> 'a list \<Rightarrow> 'a list" where
  "sort_insert comparefn x [] = [x]"
| "sort_insert comparefn x (y # ys) =
     (if SortCompare comparefn x y \<le> 0 then x # y # ys else y # sort_insert comparefn x ys)"

definition Array_sort :: "('a \<Rightarrow> 'a \<Rightarrow> number) \<Rightarrow> 'a list \<Rightarrow> 'a list" where
  "Array_sort comparefn xs = foldr (sort_insert comparefn) xs []"

subsection \<open>Row expansion (SSH keys and audit logs)\<close>

text \<open>
  \<^verbatim>\<open>toggleRow\<close> is the same function on both pages: it copies the set of expanded
  identifiers, deletes the identifier when the copy has it and adds it otherwise.
\<close>

definition toggleRow :: "string \<Rightarrow> string set \<Rightarrow> string set" where
  "toggleRow ident prev = (if ident \<in> prev then prev - {ident} else insert ident prev)"

subsection \<open>The record types\<close>

datatype cert_status = Active | Expired | Expiring

record certificate =
  cert_id :: string
  name :: string
  domain :: string
  issuer :: string
  status :: cert_status
  expiryDate :: string
  createdAt :: string
  algorithm :: string
  serialNumber :: string

datatype trust_level = High | Medium | Low

record sshKey =
  key_id :: string
  owner :: string
  fingerprint :: string
  lastUsed :: string
  trustLevel :: trust_level
  keyType :: string
  servers :: "string list"

record auditLog =
  log_id :: string
  timestamp :: string
  actor :: string
  actionType :: string
  targetResource :: string
  metadata :: "(string \<times> string) list"

datatype direction = Asc | Desc

type_synonym storage = "string \<rightharpoonup> string"

text \<open>
  Five functions of the platform are parameters of the definitions below, so that every
  theorem holds whatever they compute:
  \<^item> \<open>toLowerCase s\<close> is \<^verbatim>\<open>s.toLowerCase()\<close>;
  \<^item> \<open>trim s\<close> is \<^verbatim>\<open>s.trim()\<close>;
  \<^item> \<open>getTime s\<close> is \<^verbatim>\<open>new Date(s).getTime()\<close>, the time value of a date
    string, \<^verbatim>\<open>NaN\<close> when the string is not a date;
  \<^item> \<open>JSON_parse s\<close> is \<^verbatim>\<open>JSON.parse(s)\<close>, \<open>None\<close> when it throws;
  \<^item> \<open>JSON_stringify xs\<close> is \<^verbatim>\<open>JSON.stringify(xs)\<close>.
  The bundled datasets (\<^verbatim>\<open>@/data/certificates.json\<close>,
  \<^verbatim>\<open>@/data/audit-logs.json\<close>) are not among the sources and are parameters too.
\<close>

subsection \<open>The certificates page\<close>

definition CACHE_KEY :: string where
  "CACHE_KEY = ''certificates-cache''"

record toast =
  title :: string
  description :: string

record cert_page =
  certificates :: "certificate list"
  loading :: bool
  error :: "string option"
  searchQuery :: string
  debouncedSearch :: string
  domainFilter :: string
  sortDirection :: direction
  currentPage :: int
  pageSize :: int
  selectedCert :: "certificate option"
  editingCert :: "certificate option"
  editName :: string
  localStorage :: storage
  toasts :: "toast list"

text \<open>The state of the component when it mounts, over the browser's storage.\<close>

definition Certificates_mount :: "storage \<Rightarrow> cert_page" where
  "Certificates_mount store =
     \<lparr>certificates = [], loading = True, error = None, searchQuery = [],
      debouncedSearch = [], domainFilter = ''all'', sortDirection = Asc, currentPage = 1,
      pageSize = 5, selectedCert = None, editingCert = None, editName = [],
      localStorage = store, toasts = []\<rparr>"

text \<open>
  \<^verbatim>\<open>loadData\<close>, from the point where its delay has passed. The cached string is
  read before the delay; the page writes nothing to the storage while the load is
  pending, so it is the string of the storage at this point. A cached string that is
  empty is falsy and takes the branch of the missing one. \<^verbatim>\<open>JSON.parse\<close> throwing
  is caught: the error message is set and nothing else is. \<^verbatim>\<open>finally\<close> clears
  \<open>loading\<close> on every path. Writing to the storage is taken not to fail.
\<close>

definition Certificates_loadData ::
  "(string \<Rightarrow> certificate list option) \<Rightarrow> (certificate list \<Rightarrow> string) \<Rightarrow> certificate list
     \<Rightarrow> cert_page \<Rightarrow> cert_page" where
  "Certificates_loadData JSON_parse JSON_stringify certificatesData s =
     (let cached = localStorage s CACHE_KEY in
      if cached \<noteq> None \<and> cached \<noteq> Some [] then
        (case JSON_parse (the cached) of
           Some parsed \<Rightarrow> s\<lparr>certificates := parsed, error := None, loading := False\<rparr>
         | None \<Rightarrow> s\<lparr>error := Some ''Failed to load certificates'', loading := False\<rparr>)
      else
        s\<lparr>certificates := certificatesData,
          localStorage := (localStorage s)(CACHE_KEY \<mapsto> JSON_stringify certificatesData),
          error := None, loading := False\<rparr>)"

text \<open>The effect on \<^verbatim>\<open>[certificates]\<close>: the collection is saved when it is not empty.\<close>

definition Certificates_persist :: "(certificate list \<Rightarrow> string) \<Rightarrow> cert_page \<Rightarrow> cert_page" where
  "Certificates_persist JSON_stringify s =
     (if length (certificates s) > 0
      then s\<lparr>localStorage := (localStorage s)(CACHE_KEY \<mapsto> JSON_stringify (certificates s))\<rparr>
      else s)"

text \<open>\<^verbatim>\<open>filteredData\<close>: search, then the domain filter, then the sort on the expiry date.\<close>

definition Certificates_search :: "(string \<Rightarrow> string) \<Rightarrow> string \<Rightarrow> certificate \<Rightarrow> bool" where
  "Certificates_search toLowerCase query c =
     (str_includes (toLowerCase (name c)) query
      \<or> str_includes (toLowerCase (domain c)) query
      \<or> str_includes (toLowerCase (issuer c)) query)"

definition Certificates_compare ::
  "(string \<Rightarrow> number) \<Rightarrow> direction \<Rightarrow> certificate \<Rightarrow> certificate \<Rightarrow> number" where
  "Certificates_compare getTime dir a b =
     (let dateA = getTime (expiryDate a); dateB = getTime (expiryDate b)
      in if dir = Asc then num_minus dateA dateB else num_minus dateB dateA)"

definition Certificates_filteredData ::
  "(string \<Rightarrow> number) \<Rightarrow> (string \<Rightarrow> string) \<Rightarrow> certificate list \<Rightarrow> string \<Rightarrow> string
     \<Rightarrow> direction \<Rightarrow> certificate list" where
  "Certificates_filteredData getTime toLowerCase certs search domainF dir =
     (let result = certs;
          result = (if search \<noteq> []
                    then filter (Certificates_search toLowerCase (toLowerCase search)) result
                    else result);
          result = (if domainF \<noteq> ''all'' then filter (\<lambda>c. domain c = domainF) result
                    else result)
      in Array_sort (Certificates_compare getTime dir) result)"

text \<open>
  \<^verbatim>\<open>Math.ceil(filteredData.length / pageSize)\<close> and the slice of the current page.
  The page size and the page index are integers, as the pagination control sets them.
  Dividing by zero gives \<^verbatim>\<open>Infinity\<close>, or \<^verbatim>\<open>NaN\<close> for an empty collection.
\<close>

datatype page_count = Pages int | InfinitePages | NotANumber

definition totalPages :: "nat \<Rightarrow> int \<Rightarrow> page_count" where
  "totalPages n psize =
     (if psize = 0 then (if n = 0 then NotANumber else InfinitePages)
      else Pages \<lceil>rat_of_nat n / rat_of_int psize\<rceil>)"

definition paginatedData :: "'a list \<Rightarrow> int \<Rightarrow> int \<Rightarrow> 'a list" where
  "paginatedData filtered page psize = slice ((page - 1) * psize) (page * psize) filtered"

text \<open>The two values as the page renders them from its state.\<close>

definition Certificates_filtered ::
  "(string \<Rightarrow> number) \<Rightarrow> (string \<Rightarrow> string) \<Rightarrow> cert_page \<Rightarrow> certificate list" where
  "Certificates_filtered getTime toLowerCase s =
     Certificates_filteredData getTime toLowerCase (certificates s) (debouncedSearch s)
       (domainFilter s) (sortDirection s)"

definition Certificates_visible ::
  "(string \<Rightarrow> number) \<Rightarrow> (string \<Rightarrow> string) \<Rightarrow> cert_page \<Rightarrow> certificate list" where
  "Certificates_visible getTime toLowerCase s =
     paginatedData (Certificates_filtered getTime toLowerCase s) (currentPage s) (pageSize s)"

text \<open>\<^verbatim>\<open>handleEdit\<close> and \<^verbatim>\<open>handleSaveEdit\<close>.\<close>

definition handleEdit :: "certificate \<Rightarrow> cert_page \<Rightarrow> cert_page" where
  "handleEdit cert s = s\<lparr>editingCert := Some cert, editName := name cert\<rparr>"

definition handleSaveEdit :: "(string \<Rightarrow> string) \<Rightarrow> cert_page \<Rightarrow> cert_page" where
  "handleSaveEdit trim s =
     (case editingCert s of
        None \<Rightarrow> s
      | Some editing \<Rightarrow>
          if trim (editName s) \<noteq> [] then
            s\<lparr>certificates :=
                 map (\<lambda>c. if cert_id c = cert_id editing then c\<lparr>name := trim (editName s)\<rparr> else c)
                   (certificates s),
              editingCert := None,
              toasts := toasts s @
                [\<lparr>title = ''Certificate Updated'',
                  description = [CHR 0x22] @ trim (editName s) @ [CHR 0x22]
                    @ '' has been updated successfully.''\<rparr>]\<rparr>
          else s)"

text \<open>
  What the user and the platform can do to the mounted page. \<open>LoadResolved\<close> is the
  pending \<^verbatim>\<open>loadData\<close> finishing; it is pending while \<open>loading\<close> holds.

  Modelled from the spec: \<^verbatim>\<open>useDebounce\<close> (\<^verbatim>\<open>@/hooks/useDebounce\<close> is not among
  the sources). The search text is debounced with a fixed quiet period before it is
  applied: \<open>DebounceSettled\<close> is the debounced value taking the search text.
\<close>

datatype cert_event =
    LoadResolved
  | SetSearchQuery string
  | DebounceSettled
  | SetDomainFilter string
  | ToggleSort
  | SetCurrentPage int
  | SetPageSize int
  | SetSelectedCert "certificate option"
  | HandleEdit certificate
  | SetEditName string
  | CloseDrawer
  | HandleSaveEdit

fun Certificates_handle ::
  "(string \<Rightarrow> certificate list option) \<Rightarrow> (certificate list \<Rightarrow> string) \<Rightarrow> certificate list
     \<Rightarrow> (string \<Rightarrow> string) \<Rightarrow> cert_event \<Rightarrow> cert_page \<Rightarrow> cert_page" where
  "Certificates_handle P S D T LoadResolved s =
     (if loading s then Certificates_loadData P S D s else s)"
| "Certificates_handle P S D T (SetSearchQuery q) s = s\<lparr>searchQuery := q\<rparr>"
| "Certificates_handle P S D T DebounceSettled s = s\<lparr>debouncedSearch := searchQuery s\<rparr>"
| "Certificates_handle P S D T (SetDomainFilter d) s = s\<lparr>domainFilter := d\<rparr>"
| "Certificates_handle P S D T ToggleSort s =
     s\<lparr>sortDirection := (if sortDirection s = Asc then Desc else Asc)\<rparr>"
| "Certificates_handle P S D T (SetCurrentPage n) s = s\<lparr>currentPage := n\<rparr>"
| "Certificates_handle P S D T (SetPageSize n) s = s\<lparr>pageSize := n\<rparr>"
| "Certificates_handle P S D T (SetSelectedCert c) s = s\<lparr>selectedCert := c\<rparr>"
| "Certificates_handle P S D T (HandleEdit c) s = handleEdit c s"
| "Certificates_handle P S D T (SetEditName n) s = s\<lparr>editName := n\<rparr>"
| "Certificates_handle P S D T CloseDrawer s = s\<lparr>editingCert := None\<rparr>"
| "Certificates_handle P S D T HandleSaveEdit s = handleSaveEdit T s"

text \<open>
  Whether the handler called \<^verbatim>\<open>setCertificates\<close>. The call installs a new array, so
  the effect on \<^verbatim>\<open>[certificates]\<close> runs after it even when the contents are equal.
\<close>

fun setsCertificates ::
  "(string \<Rightarrow> certificate list option) \<Rightarrow> (string \<Rightarrow> string) \<Rightarrow> cert_event \<Rightarrow> cert_page \<Rightarrow> bool" where
  "setsCertificates P T LoadResolved s =
     (loading s \<and>
      (let cached = localStorage s CACHE_KEY
       in cached \<noteq> None \<and> cached \<noteq> Some [] \<longrightarrow> P (the cached) \<noteq> None))"
| "setsCertificates P T HandleSaveEdit s = (editingCert s \<noteq> None \<and> T (editName s) \<noteq> [])"
| "setsCertificates P T _ s = False"

text \<open>
  The effects after a handler: the save on \<^verbatim>\<open>[certificates]\<close>, and the reset of the
  page index on \<^verbatim>\<open>[debouncedSearch, domainFilter, pageSize]\<close>, which runs when one of
  the three values differs from the one of the render before.
\<close>

definition Certificates_effects ::
  "(certificate list \<Rightarrow> string) \<Rightarrow> cert_page \<Rightarrow> bool \<Rightarrow> cert_page \<Rightarrow> cert_page" where
  "Certificates_effects S before replaced s =
     (let s1 = (if replaced then Certificates_persist S s else s)
      in if debouncedSearch s1 \<noteq> debouncedSearch before
            \<or> domainFilter s1 \<noteq> domainFilter before
            \<or> pageSize s1 \<noteq> pageSize before
         then s1\<lparr>currentPage := 1\<rparr> else s1)"

definition Certificates_step ::
  "(string \<Rightarrow> certificate list option) \<Rightarrow> (certificate list \<Rightarrow> string) \<Rightarrow> certificate list
     \<Rightarrow> (string \<Rightarrow> string) \<Rightarrow> cert_event \<Rightarrow> cert_page \<Rightarrow> cert_page" where
  "Certificates_step P S D T e s =
     Certificates_effects S s (setsCertificates P T e s) (Certificates_handle P S D T e s)"

definition Certificates_run ::
  "(string \<Rightarrow> certificate list option) \<Rightarrow> (certificate list \<Rightarrow> string) \<Rightarrow> certificate list
     \<Rightarrow> (string \<Rightarrow> string) \<Rightarrow> cert_event list \<Rightarrow> cert_page \<Rightarrow> cert_page" where
  "Certificates_run P S D T es s = foldl (\<lambda>st e. Certificates_step P S D T e st) s es"

text \<open>
  The activation of the loader: the component mounts over the storage and its
  \<^verbatim>\<open>loadData\<close> finishes.
\<close>

definition Certificates_activate ::
  "(string \<Rightarrow> certificate list option) \<Rightarrow> (certificate list \<Rightarrow> string) \<Rightarrow> certificate list
     \<Rightarrow> (string \<Rightarrow> string) \<Rightarrow> storage \<Rightarrow> cert_page" where
  "Certificates_activate P S D T store =
     Certificates_step P S D T LoadResolved (Certificates_mount store)"

text \<open>
  What holds of the certificates page once a load has adopted a collection that is not
  empty: loading has ended without an error, the collection is not empty and the cached
  string is its serialisation.
\<close>

definition snapshot_inv :: "(certificate list \<Rightarrow> string) \<Rightarrow> cert_page \<Rightarrow> bool" where
  "snapshot_inv S s \<longleftrightarrow>
     \<not> loading s \<and> error s = None \<and> certificates s \<noteq> []
     \<and> localStorage s CACHE_KEY = Some (S (certificates s))"

subsection \<open>The SSH keys page\<close>

text \<open>The trust level as the string the filter select holds.\<close>

fun trust_string :: "trust_level \<Rightarrow> string" where
  "trust_string High = ''high''"
| "trust_string Medium = ''medium''"
| "trust_string Low = ''low''"

fun trustOrder :: "trust_level \<Rightarrow> int" where
  "trustOrder High = 3"
| "trustOrder Medium = 2"
| "trustOrder Low = 1"

definition SSHKeys_search :: "(string \<Rightarrow> string) \<Rightarrow> string \<Rightarrow> sshKey \<Rightarrow> bool" where
  "SSHKeys_search toLowerCase query k =
     (str_includes (toLowerCase (owner k)) query
      \<or> str_includes (toLowerCase (fingerprint k)) query)"

definition SSHKeys_compare :: "direction \<Rightarrow> sshKey \<Rightarrow> sshKey \<Rightarrow> number" where
  "SSHKeys_compare dir a b =
     (let orderA = trustOrder (trustLevel a); orderB = trustOrder (trustLevel b)
      in if dir = Desc then Some (orderB - orderA) else Some (orderA - orderB))"

definition SSHKeys_filteredData ::
  "(string \<Rightarrow> string) \<Rightarrow> sshKey list \<Rightarrow> string \<Rightarrow> string \<Rightarrow> direction \<Rightarrow> sshKey list" where
  "SSHKeys_filteredData toLowerCase sshKeys search trustFilter dir =
     (let result = sshKeys;
          result = (if search \<noteq> []
                    then filter (SSHKeys_search toLowerCase (toLowerCase search)) result
                    else result);
          result = (if trustFilter \<noteq> ''all''
                    then filter (\<lambda>k. trust_string (trustLevel k) = trustFilter) result
                    else result)
      in Array_sort (SSHKeys_compare dir) result)"

subsection \<open>The audit log page\<close>

definition LOGS_CACHE_KEY :: string where
  "LOGS_CACHE_KEY = ''audit-logs-cache''"

definition PAGE_SIZE :: nat where
  "PAGE_SIZE = 8"

text \<open>
  The date range holds \<^verbatim>\<open>Date\<close> objects picked in the calendar, kept here by their
  time values; a bound that is not set is \<open>None\<close>.
\<close>

record date_range =
  range_from :: "int option"
  range_to :: "int option"

record audit_page =
  logs :: "auditLog list"
  logs_loading :: bool
  logs_error :: "string option"
  actionTypeFilter :: string
  dateRange :: date_range
  displayCount :: nat
  expandedRows :: "string set"
  logs_storage :: storage

definition AuditLogs_mount :: "storage \<Rightarrow> audit_page" where
  "AuditLogs_mount store =
     \<lparr>logs = [], logs_loading = True, logs_error = None, actionTypeFilter = ''all'',
      dateRange = \<lparr>range_from = None, range_to = None\<rparr>, displayCount = PAGE_SIZE,
      expandedRows = {}, logs_storage = store\<rparr>"

definition AuditLogs_loadData ::
  "(string \<Rightarrow> auditLog list option) \<Rightarrow> (auditLog list \<Rightarrow> string) \<Rightarrow> auditLog list
     \<Rightarrow> audit_page \<Rightarrow> audit_page" where
  "AuditLogs_loadData JSON_parse JSON_stringify auditLogsData s =
     (let cached = logs_storage s LOGS_CACHE_KEY in
      if cached \<noteq> None \<and> cached \<noteq> Some [] then
        (case JSON_parse (the cached) of
           Some parsed \<Rightarrow> s\<lparr>logs := parsed, logs_error := None, logs_loading := False\<rparr>
         | None \<Rightarrow> s\<lparr>logs_error := Some ''Failed to load audit logs'', logs_loading := False\<rparr>)
      else
        s\<lparr>logs := auditLogsData,
          logs_storage := (logs_storage s)(LOGS_CACHE_KEY \<mapsto> JSON_stringify auditLogsData),
          logs_error := None, logs_loading := False\<rparr>)"

text \<open>
  \<^verbatim>\<open>filteredData\<close>: the action type, the two bounds of the date range, then the sort,
  newest first. A \<^verbatim>\<open>Date\<close> compares by its time value.
\<close>

definition AuditLogs_compare :: "(string \<Rightarrow> number) \<Rightarrow> auditLog \<Rightarrow> auditLog \<Rightarrow> number" where
  "AuditLogs_compare getTime a b = num_minus (getTime (timestamp b)) (getTime (timestamp a))"

definition AuditLogs_filteredData ::
  "(string \<Rightarrow> number) \<Rightarrow> auditLog list \<Rightarrow> string \<Rightarrow> date_range \<Rightarrow> auditLog list" where
  "AuditLogs_filteredData getTime ls actionF dr =
     (let result = ls;
          result = (if actionF \<noteq> ''all'' then filter (\<lambda>l. actionType l = actionF) result
                    else result);
          result = (case range_from dr of
                      Some lo \<Rightarrow> filter (\<lambda>l. num_le (Some lo) (getTime (timestamp l))) result
                    | None \<Rightarrow> result);
          result = (case range_to dr of
                      Some hi \<Rightarrow> filter (\<lambda>l. num_le (getTime (timestamp l)) (Some hi)) result
                    | None \<Rightarrow> result)
      in Array_sort (AuditLogs_compare getTime) result)"

definition AuditLogs_filtered :: "(string \<Rightarrow> number) \<Rightarrow> audit_page \<Rightarrow> auditLog list" where
  "AuditLogs_filtered getTime s =
     AuditLogs_filteredData getTime (logs s) (actionTypeFilter s) (dateRange s)"

definition displayedData :: "(string \<Rightarrow> number) \<Rightarrow> audit_page \<Rightarrow> auditLog list" where
  "displayedData getTime s = slice 0 (int (displayCount s)) (AuditLogs_filtered getTime s)"

definition hasMore :: "(string \<Rightarrow> number) \<Rightarrow> audit_page \<Rightarrow> bool" where
  "hasMore getTime s = (displayCount s < length (AuditLogs_filtered getTime s))"

text \<open>\<^verbatim>\<open>handleObserver\<close>, given \<^verbatim>\<open>isIntersecting\<close> of the entry of the sentinel.\<close>

definition handleObserver :: "(string \<Rightarrow> number) \<Rightarrow> bool \<Rightarrow> audit_page \<Rightarrow> audit_page" where
  "handleObserver getTime isIntersecting s =
     (if isIntersecting \<and> hasMore getTime s \<and> \<not> logs_loading s
      then s\<lparr>displayCount :=
               min (displayCount s + PAGE_SIZE) (length (AuditLogs_filtered getTime s))\<rparr>
      else s)"

text \<open>
  The events of the mounted page. After a handler, the effect on
  \<^verbatim>\<open>[actionTypeFilter, dateRange]\<close> sets the count back to \<open>PAGE_SIZE\<close>: it runs when
  the action type differs from the one before, and after every \<^verbatim>\<open>setDateRange\<close>,
  which installs a new object.
\<close>

datatype audit_event =
    LogsLoadResolved
  | ObserverFired bool
  | SetActionTypeFilter string
  | SetDateRange "int option" "int option"
  | ToggleRow string

fun AuditLogs_handle ::
  "(string \<Rightarrow> number) \<Rightarrow> (string \<Rightarrow> auditLog list option) \<Rightarrow> (auditLog list \<Rightarrow> string)
     \<Rightarrow> auditLog list \<Rightarrow> audit_event \<Rightarrow> audit_page \<Rightarrow> audit_page" where
  "AuditLogs_handle G P S D LogsLoadResolved s =
     (if logs_loading s then AuditLogs_loadData P S D s else s)"
| "AuditLogs_handle G P S D (ObserverFired b) s = handleObserver G b s"
| "AuditLogs_handle G P S D (SetActionTypeFilter a) s = s\<lparr>actionTypeFilter := a\<rparr>"
| "AuditLogs_handle G P S D (SetDateRange lo hi) s =
     s\<lparr>dateRange := \<lparr>range_from = lo, range_to = hi\<rparr>\<rparr>"
| "AuditLogs_handle G P S D (ToggleRow i) s = s\<lparr>expandedRows := toggleRow i (expandedRows s)\<rparr>"

fun filterChange :: "audit_event \<Rightarrow> audit_page \<Rightarrow> bool" where
  "filterChange (SetActionTypeFilter a) s = (a \<noteq> actionTypeFilter s)"
| "filterChange (SetDateRange lo hi) s = True"
| "filterChange _ s = False"

definition AuditLogs_step ::
  "(string \<Rightarrow> number) \<Rightarrow> (string \<Rightarrow> auditLog list option) \<Rightarrow> (auditLog list \<Rightarrow> string)
     \<Rightarrow> auditLog list \<Rightarrow> audit_event \<Rightarrow> audit_page \<Rightarrow> audit_page" where
  "AuditLogs_step G P S D e s =
     (let s1 = AuditLogs_handle G P S D e s
      in if filterChange e s then s1\<lparr>displayCount := PAGE_SIZE\<rparr> else s1)"

definition AuditLogs_run ::
  "(string \<Rightarrow> number) \<Rightarrow> (string \<Rightarrow> auditLog list option) \<Rightarrow> (auditLog list \<Rightarrow> string)
     \<Rightarrow> auditLog list \<Rightarrow> audit_event list \<Rightarrow> audit_page \<Rightarrow> audit_page" where
  "AuditLogs_run G P S D es s = foldl (\<lambda>st e. AuditLogs_step G P S D e st) s es"

definition AuditLogs_activate ::
  "(string \<Rightarrow> number) \<Rightarrow> (string \<Rightarrow> auditLog list option) \<Rightarrow> (auditLog list \<Rightarrow> string)
     \<Rightarrow> auditLog list \<Rightarrow> storage \<Rightarrow> audit_page" where
  "AuditLogs_activate G P S D store = AuditLogs_step G P S D LogsLoadResolved (AuditLogs_mount store)"

text \<open>
  What holds of the count in every state the page reaches: it is still the first page
  size while the load is pending, and it is the first page size or at most the size of
  the filtered collection.
\<close>

definition reveal_inv :: "(string \<Rightarrow> number) \<Rightarrow> audit_page \<Rightarrow> bool" where
  "reveal_inv G s \<longleftrightarrow>
     (logs_loading s \<longrightarrow> displayCount s = PAGE_SIZE)
     \<and> (displayCount s = PAGE_SIZE \<or> displayCount s \<le> length (AuditLogs_filtered G s))"

subsection \<open>The search condition in the words of the specification\<close>

text \<open>
  A field matches a search text, case ignored, when the search text is a substring of the
  field once the case of both has been folded. The folding is the platform's
  \<^verbatim>\<open>toLowerCase\<close>; the substring relation is \<^const>\<open>sublist\<close> of the library,
  the contiguous one.
\<close>

definition matches_ci :: "(string \<Rightarrow> string) \<Rightarrow> string \<Rightarrow> string \<Rightarrow> bool" where
  "matches_ci toLowerCase q field \<longleftrightarrow> sublist (toLowerCase q) (toLowerCase field)"

subsection \<open>Sample data\<close>

text \<open>
  The time values of three dates as \<^verbatim>\<open>new Date(s).getTime()\<close> gives them, and
  \<^verbatim>\<open>NaN\<close> for the string \<^verbatim>\<open>not a date\<close> (and, here, for every other string).
\<close>

definition sample_getTime :: "string \<Rightarrow> number" where
  "sample_getTime s =
     (if s = ''2025-01-01T00:00:00Z'' then Some 1735689600000
      else if s = ''2024-06-30T00:00:00Z'' then Some 1719705600000
      else if s = ''2026-03-15T00:00:00Z'' then Some 1773532800000
      else None)"

definition certA :: certificate where
  "certA = \<lparr>cert_id = ''cert-1'', name = ''API Gateway'', domain = ''api.example.com'',
            issuer = ''DigiCert'', status = Active, expiryDate = ''2025-01-01T00:00:00Z'',
            createdAt = ''2024-01-01T00:00:00Z'', algorithm = ''RSA-2048'',
            serialNumber = ''0A''\<rparr>"

definition certB :: certificate where
  "certB = \<lparr>cert_id = ''cert-2'', name = ''Mail'', domain = ''mail.test.org'',
            issuer = ''Sectigo'', status = Expired, expiryDate = ''2024-06-30T00:00:00Z'',
            createdAt = ''2023-06-30T00:00:00Z'', algorithm = ''RSA-2048'',
            serialNumber = ''0B''\<rparr>"

definition certC :: certificate where
  "certC = \<lparr>cert_id = ''cert-3'', name = ''Intranet'', domain = ''intra.corp.net'',
            issuer = ''Sectigo'', status = Active, expiryDate = ''2026-03-15T00:00:00Z'',
            createdAt = ''2025-03-15T00:00:00Z'', algorithm = ''ECDSA-P256'',
            serialNumber = ''0C''\<rparr>"

definition keyA :: sshKey where
  "keyA = \<lparr>key_id = ''key-1'', owner = ''alice'', fingerprint = ''SHA256:AbCd'',
           lastUsed = ''2025-01-01T00:00:00Z'', trustLevel = Medium, keyType = ''ed25519'',
           servers = [''web-1'']\<rparr>"

definition keyB :: sshKey where
  "keyB = \<lparr>key_id = ''key-2'', owner = ''bob'', fingerprint = ''SHA256:EfGh'',
           lastUsed = ''2024-06-30T00:00:00Z'', trustLevel = High, keyType = ''rsa'',
           servers = []\<rparr>"

definition keyC :: sshKey where
  "keyC = \<lparr>key_id = ''key-3'', owner = ''carol'', fingerprint = ''SHA256:IjKl'',
           lastUsed = ''2026-03-15T00:00:00Z'', trustLevel = Medium, keyType = ''rsa'',
           servers = [''db-1'', ''db-2'']\<rparr>"

definition logA :: auditLog where
  "logA = \<lparr>log_id = ''log-1'', timestamp = ''2025-01-01T00:00:00Z'', actor = ''alice'',
           actionType = ''certificate.renew'', targetResource = ''cert-1'', metadata = []\<rparr>"

definition logB :: auditLog where
  "logB = \<lparr>log_id = ''log-2'', timestamp = ''2024-06-30T00:00:00Z'', actor = ''bob'',
           actionType = ''ssh_key.create'', targetResource = ''key-2'', metadata = []\<rparr>"

definition logC :: auditLog where
  "logC = \<lparr>log_id = ''log-3'', timestamp = ''2026-03-15T00:00:00Z'', actor = ''carol'',
           actionType = ''certificate.renew'', targetResource = ''cert-3'',
           metadata = [(''reason'', ''scheduled'')]\<rparr>"

text \<open>
  A stand-in for the two string functions on the samples, which are ASCII text: the
  letters \<^verbatim>\<open>A\<close> to \<^verbatim>\<open>Z\<close> are lowered, and tab, line feed, vertical tab,
  form feed, carriage return and space are trimmed.
\<close>

definition ascii_lower :: "char \<Rightarrow> char" where
  "ascii_lower c =
     (case map_of (zip ''ABCDEFGHIJKLMNOPQRSTUVWXYZ'' ''abcdefghijklmnopqrstuvwxyz'') c of
        Some l \<Rightarrow> l
      | None \<Rightarrow> c)"

definition sample_toLowerCase :: "string \<Rightarrow> string" where
  "sample_toLowerCase s = map ascii_lower s"

definition ascii_space :: "char \<Rightarrow> bool" where
  "ascii_space c = ((of_char c :: nat) \<in> {9, 10, 11, 12, 13, 32})"

definition sample_trim :: "string \<Rightarrow> string" where
  "sample_trim s = rev (dropWhile ascii_space (rev (dropWhile ascii_space s)))"

text \<open>A certificate whose expiry date is not a date.\<close>

definition certD :: certificate where
  "certD = \<lparr>cert_id = ''cert-4'', name = ''Legacy'', domain = ''old.example.com'',
            issuer = ''DigiCert'', status = Expired, expiryDate = ''not a date'',
            createdAt = ''2020-01-01T00:00:00Z'', algorithm = ''RSA-1024'',
            serialNumber = ''0D''\<rparr>"

text \<open>Twelve audit log entries, told apart by their identifiers.\<close>

definition twelve_logs :: "auditLog list" where
  "twelve_logs = map (\<lambda>c. logA\<lparr>log_id := ''log-'' @ [c]\<rparr>) ''abcdefghijkl''"

text \<open>Twelve certificates, told apart by their identifiers.\<close>

definition twelve_certs :: "certificate list" where
  "twelve_certs = map (\<lambda>c. certA\<lparr>cert_id := ''cert-'' @ [c]\<rparr>) ''abcdefghijkl''"

text \<open>
  A stand-in for the JSON functions on the samples. A collection of certificates is
  written as the list of the identifiers and names of its records, a collection of audit
  log entries as the list of their identifiers. The stand-in for \<^verbatim>\<open>JSON.parse\<close>
  reads back one collection and the empty one, and rejects every other text, as
  \<^verbatim>\<open>JSON.parse\<close> rejects \<^verbatim>\<open>not json\<close>.
\<close>

definition sample_stringify :: "certificate list \<Rightarrow> string" where
  "sample_stringify xs = ''['' @ concat (map (\<lambda>c. cert_id c @ '':'' @ name c @ '';'') xs) @ '']''"

definition sample_stringify_logs :: "auditLog list \<Rightarrow> string" where
  "sample_stringify_logs xs = ''['' @ concat (map (\<lambda>l. log_id l @ '';'') xs) @ '']''"

definition sample_JSON_parse :: "string \<Rightarrow> certificate list option" where
  "sample_JSON_parse str =
     (if str = sample_stringify [certA, certB] then Some [certA, certB]
      else if str = ''[]'' then Some [] else None)"

definition sample_JSON_parse_logs :: "string \<Rightarrow> auditLog list option" where
  "sample_JSON_parse_logs str =
     (if str = sample_stringify_logs [logA] then Some [logA]
      else if str = ''[]'' then Some [] else None)"

text \<open>
  The certificates page after its load of the three sample certificates from an empty
  storage, followed by the given events.
\<close>

definition sample_run :: "cert_event list \<Rightarrow> cert_page" where
  "sample_run es =
     Certificates_run sample_JSON_parse sample_stringify [certA, certB, certC] sample_trim
       (LoadResolved # es) (Certificates_mount Map.empty)"

section \<open>Properties\<close>

subsection \<open>Facts about the library functions\<close>

lemma str_includes_iff: "str_includes s q \<longleftrightarrow> (\<exists>u v. s = u @ q @ v)"
proof (induction s)
  case Nil
  then show ?case by auto
next
  case (Cons c s)
  show ?case
  proof
    assume "str_includes (c # s) q"
    then consider "prefix q (c # s)" | "str_includes s q" by auto
    then show "\<exists>u v. c # s = u @ q @ v"
    proof cases
      case 1
      then obtain v where "c # s = q @ v" by (auto simp: prefix_def)
      then have "c # s = [] @ q @ v" by simp
      then show ?thesis by blast
    next
      case 2
      with Cons.IH obtain u v where "s = u @ q @ v" by blast
      then have "c # s = (c # u) @ q @ v" by simp
      then show ?thesis by blast
    qed
  next
    assume "\<exists>u v. c # s = u @ q @ v"
    then obtain u v where uv: "c # s = u @ q @ v" by blast
    show "str_includes (c # s) q"
    proof (cases u)
      case Nil
      with uv have "prefix q (c # s)" by (simp add: prefix_def)
      then show ?thesis by simp
    next
      case (Cons a u')
      with uv have "s = u' @ q @ v" by simp
      with Cons.IH have "str_includes s q" by blast
      then show ?thesis by simp
    qed
  qed
qed

lemma includes_map_iff:
  "str_includes (map f s) (map f q)
     \<longleftrightarrow> (\<exists>u m v. s = u @ m @ v \<and> map f m = map f q)"
  unfolding str_includes_iff
  by (auto simp: map_eq_append_conv append_eq_map_conv) (metis map_append)+

lemma mset_sort_insert: "mset (sort_insert f x ys) = add_mset x (mset ys)"
  by (induction ys) auto

lemma mset_Array_sort: "mset (Array_sort f xs) = mset xs"
  by (induction xs) (auto simp: Array_sort_def mset_sort_insert)

lemma set_Array_sort: "set (Array_sort f xs) = set xs"
  by (metis mset_Array_sort set_mset_mset)

lemma sort_insert_insort_key:
  "\<forall>y \<in> set ys. (SortCompare f x y \<le> 0 \<longleftrightarrow> k x \<le> k y)
     \<Longrightarrow> sort_insert f x ys = insort_key k x ys"
  by (induction ys) auto

lemma Array_sort_sort_key:
  fixes k :: "'a \<Rightarrow> int"
  assumes "\<forall>x \<in> set xs. \<forall>y \<in> set xs. (SortCompare f x y \<le> 0 \<longleftrightarrow> k x \<le> k y)"
  shows "Array_sort f xs = sort_key k xs"
  using assms
proof (induction xs)
  case Nil
  then show ?case by (simp add: Array_sort_def)
next
  case (Cons x xs)
  then have IH: "Array_sort f xs = sort_key k xs" by simp
  have "\<forall>y \<in> set (sort_key k xs). (SortCompare f x y \<le> 0 \<longleftrightarrow> k x \<le> k y)"
    using Cons.prems by simp
  then have "sort_insert f x (sort_key k xs) = insort_key k x (sort_key k xs)"
    by (rule sort_insert_insort_key)
  with IH show ?case by (simp add: Array_sort_def sort_key_def)
qed

lemma slice_nonneg:
  assumes "0 \<le> a" "a \<le> b"
  shows "slice a b xs = take (nat (b - a)) (drop (nat a) xs)"
proof (cases "a \<le> int (length xs)")
  case True
  show ?thesis
  proof (cases "b \<le> int (length xs)")
    case True
    with assms \<open>a \<le> int (length xs)\<close> show ?thesis
      by (simp add: slice_def Let_def min_def)
  next
    case False
    with assms True have "nat (int (length xs) - a) = length (drop (nat a) xs)"
      by simp
    moreover from False assms True have "length (drop (nat a) xs) \<le> nat (b - a)"
      by simp
    ultimately show ?thesis
      using assms True False by (simp add: slice_def Let_def min_def)
  qed
next
  case False
  with assms show ?thesis
    by (simp add: slice_def Let_def min_def)
qed

lemma slice_page:
  assumes "0 < p" "1 \<le> k"
  shows "paginatedData xs k p = take (nat p) (drop (nat ((k - 1) * p)) xs)"
proof -
  have "0 \<le> (k - 1) * p" using assms by simp
  moreover have "(k - 1) * p \<le> k * p" using assms by (simp add: mult_right_mono)
  moreover have "k * p - (k - 1) * p = p" by (simp add: algebra_simps)
  ultimately show ?thesis
    by (simp add: paginatedData_def slice_nonneg)
qed

lemma ceil_div_pos:
  fixes p :: int
  assumes "0 < p"
  shows "- ((- a) div p) = (a + p - 1) div p"
proof (cases "a mod p = 0")
  case True
  have "a = p * (a div p)"
    using True mult_div_mod_eq [of p a] by simp
  then have "a + p - 1 = p * (a div p) + (p - 1)"
    by simp
  then have "(a + p - 1) div p = a div p"
    using assms by (intro int_div_pos_eq [where r = "p - 1"]) auto
  moreover have "(- a) div p = - (a div p)"
    using True assms by (simp add: zdiv_zminus1_eq_if)
  ultimately show ?thesis by simp
next
  case False
  have "0 \<le> a mod p" "a mod p < p"
    using assms by simp_all
  with False have r: "0 < a mod p" "a mod p < p"
    by simp_all
  have "a = p * (a div p) + a mod p"
    by simp
  then have "a + p - 1 = p * (a div p + 1) + (a mod p - 1)"
    by (simp add: algebra_simps)
  then have "(a + p - 1) div p = a div p + 1"
    using r by (intro int_div_pos_eq [where r = "a mod p - 1"]) auto
  moreover have "(- a) div p = - (a div p) - 1"
    using False assms by (simp add: zdiv_zminus1_eq_if)
  ultimately show ?thesis by simp
qed

lemma totalPages_div:
  assumes "0 < p"
  shows "totalPages n p = Pages ((int n + p - 1) div p)"
proof -
  have "\<lceil>rat_of_nat n / rat_of_int p\<rceil> = - ((- int n) div p)"
    using ceiling_divide_eq_div [of "int n" p, where 'a = rat] by simp
  with assms show ?thesis
    by (simp add: totalPages_def ceil_div_pos)
qed

lemma matches_ci_includes:
  "matches_ci L q field \<longleftrightarrow> str_includes (L field) (L q)"
  by (simp add: matches_ci_def sublist_def str_includes_iff)

text \<open>
  When the folding works character by character, as it does on ASCII text, the field
  matches exactly when its characters from some position on, as many as the search text
  has, are the search text up to the folding.
\<close>

lemma matches_ci_positions:
  "matches_ci (map f) q field
     \<longleftrightarrow> (\<exists>i \<le> length field. map f (take (length q) (drop i field)) = map f q)"
proof -
  have "(\<exists>i \<le> length field. map f (take (length q) (drop i field)) = map f q)
      \<longleftrightarrow> (\<exists>u m v. field = u @ m @ v \<and> map f m = map f q)"
  proof
    assume "\<exists>i \<le> length field. map f (take (length q) (drop i field)) = map f q"
    then obtain i where i: "map f (take (length q) (drop i field)) = map f q"
      by blast
    have "drop i field = take (length q) (drop i field) @ drop (length q) (drop i field)"
      by (simp only: append_take_drop_id)
    then have "field = take i field @ take (length q) (drop i field) @ drop (length q) (drop i field)"
      by (metis append_take_drop_id)
    with i show "\<exists>u m v. field = u @ m @ v \<and> map f m = map f q"
      by blast
  next
    assume "\<exists>u m v. field = u @ m @ v \<and> map f m = map f q"
    then obtain u m v where f: "field = u @ m @ v" and m: "map f m = map f q"
      by blast
    from m have "length m = length q" by (rule map_eq_imp_length_eq)
    with f have "take (length q) (drop (length u) field) = m" by simp
    moreover from f have "length u \<le> length field" by simp
    ultimately show "\<exists>i \<le> length field. map f (take (length q) (drop i field)) = map f q"
      using m by blast
  qed
  then show ?thesis by (simp add: matches_ci_includes includes_map_iff)
qed



lemma ceiling_real_div:
  assumes "0 < p"
  shows "\<lceil>real n / real_of_int p\<rceil> = (int n + p - 1) div p"
proof -
  have "\<lceil>real n / real_of_int p\<rceil> = - ((- int n) div p)"
    using ceiling_divide_eq_div [of "int n" p, where 'a = real] by simp
  with assms show ?thesis by (simp add: ceil_div_pos)
qed

lemma page_bounds:
  fixes n :: nat and p t :: int
  assumes "0 < p" and t_def: "t = (int n + p - 1) div p"
  shows "int n \<le> t * p" and "(t - 1) * p < int n" and "0 \<le> t"
    and "int n - (t - 1) * p = (if int n mod p = 0 then p else int n mod p)"
proof -
  have dm: "int n = p * (int n div p) + int n mod p" by simp
  have r: "0 \<le> int n mod p" "int n mod p < p" using assms by simp_all
  have q: "0 \<le> int n div p" using assms by (simp add: pos_imp_zdiv_nonneg_iff)
  have t: "t = (if int n mod p = 0 then int n div p else int n div p + 1)"
  proof (cases "int n mod p = 0")
    case True
    then have "int n = p * (int n div p)" using dm by simp
    then have "int n + p - 1 = p * (int n div p) + (p - 1)" by simp
    then have "(int n + p - 1) div p = int n div p"
      using assms by (intro int_div_pos_eq [where r = "p - 1"]) auto
    with True show ?thesis by (simp add: t_def)
  next
    case False
    with r have r': "0 < int n mod p" by simp
    from dm have "int n + p - 1 = p * (int n div p + 1) + (int n mod p - 1)"
      by (simp add: algebra_simps)
    then have "(int n + p - 1) div p = int n div p + 1"
      using r r' by (intro int_div_pos_eq [where r = "int n mod p - 1"]) auto
    with False show ?thesis by (simp add: t_def)
  qed
  show "int n \<le> t * p"
  proof (cases "int n mod p = 0")
    case True
    with dm t show ?thesis by (simp add: mult.commute)
  next
    case False
    have "int n < p * (int n div p) + p" using dm r by linarith
    with False t show ?thesis by (simp add: algebra_simps)
  qed
  show "0 \<le> t" using t q by simp
  show "int n - (t - 1) * p = (if int n mod p = 0 then p else int n mod p)"
  proof (cases "int n mod p = 0")
    case True
    from True dm have "int n = p * (int n div p)" by simp
    with True t have "int n - (t - 1) * p = p" by (simp add: algebra_simps)
    with True show ?thesis by simp
  next
    case False
    with t have "(t - 1) * p = p * (int n div p)" by (simp add: mult.commute)
    with dm have "int n - (t - 1) * p = int n mod p" by linarith
    with False show ?thesis by simp
  qed
  moreover have "0 < (if int n mod p = 0 then p else int n mod p)"
    using r \<open>0 < p\<close> by (simp add: less_le)
  ultimately show "(t - 1) * p < int n"
    by linarith
qed

lemma pages_concat:
  "concat (map (\<lambda>k. take p (drop (k * p) xs)) [0..<t]) = take (t * p) xs"
proof (induction t)
  case 0
  then show ?case by simp
next
  case (Suc t)
  have "take (t * p) xs @ take p (drop (t * p) xs) = take (t * p + p) xs"
    by (simp add: take_add)
  with Suc show ?case by (simp add: add.commute)
qed

lemma length_Array_sort: "length (Array_sort f xs) = length xs"
  by (metis mset_Array_sort size_mset)

subsection \<open>The query pipeline keeps exactly the matching records\<close>



subsection \<open>Pagination of the certificates\<close>

text \<open>
  Claim C4. For every filtered collection of \<open>N\<close> records and every page size
  \<open>P > 0\<close>: \<open>totalPages\<close> is the ceiling of \<open>N / P\<close>; page \<open>k\<close>, counted from
  one, is the run of \<open>P\<close> records from index \<open>(k - 1) * P\<close> on, cut at the end of the
  collection; every page before the last holds \<open>P\<close> records; the last page of a
  non-empty collection holds \<open>N mod P\<close> records, or \<open>P\<close> when that is zero; the pages
  after the last are empty; the pages in order make up the collection. With twelve
  records and page size five there are three pages, the first is the first five records
  and the third is the eleventh and the twelfth.
\<close>

theorem pagination_pages:
  assumes "0 < P"
  shows "totalPages (length xs) P = Pages \<lceil>real (length xs) / real_of_int P\<rceil>
    \<and> (\<forall>k\<ge>1. paginatedData xs k P = take (nat P) (drop (nat ((k - 1) * P)) xs))
    \<and> (\<forall>k. 1 \<le> k \<and> k < \<lceil>real (length xs) / real_of_int P\<rceil>
           \<longrightarrow> length (paginatedData xs k P) = nat P)
    \<and> (xs \<noteq> [] \<longrightarrow>
          int (length (paginatedData xs \<lceil>real (length xs) / real_of_int P\<rceil> P))
            = (if int (length xs) mod P = 0 then P else int (length xs) mod P))
    \<and> (\<forall>k > \<lceil>real (length xs) / real_of_int P\<rceil>. paginatedData xs k P = [])
    \<and> concat (map (\<lambda>k. paginatedData xs k P) [1..\<lceil>real (length xs) / real_of_int P\<rceil>]) = xs
    \<and> (length xs = 12 \<longrightarrow>
          totalPages (length xs) 5 = Pages 3 \<and> paginatedData xs 1 5 = take 5 xs
          \<and> paginatedData xs 3 5 = [xs ! 10, xs ! 11])"
proof -
  define t where "t = (int (length xs) + P - 1) div P"
  have ceil: "\<lceil>real (length xs) / real_of_int P\<rceil> = t"
    using assms by (simp add: ceiling_real_div t_def)
  note b = page_bounds [OF assms t_def]
  have total: "totalPages (length xs) P = Pages t"
    using assms by (simp add: totalPages_div t_def)
  have page: "paginatedData xs k P = take (nat P) (drop (nat ((k - 1) * P)) xs)" if "1 \<le> k" for k
    using assms that by (rule slice_page)
  have full: "length (paginatedData xs k P) = nat P" if "1 \<le> k" "k < t" for k
  proof -
    have "k * P \<le> (t - 1) * P" using that assms by (simp add: mult_right_mono)
    with b(2) have "k * P < int (length xs)" by simp
    then have "(k - 1) * P + P \<le> int (length xs)" by (simp add: algebra_simps)
    moreover have "0 \<le> (k - 1) * P" using that assms by simp
    ultimately have "nat P \<le> length xs - nat ((k - 1) * P)" by linarith
    then show ?thesis using that by (simp add: page)
  qed
  have last: "int (length (paginatedData xs t P))
            = (if int (length xs) mod P = 0 then P else int (length xs) mod P)" if "xs \<noteq> []"
  proof -
    from that b(1) assms have "1 \<le> t"
      by (smt (verit) length_greater_0_conv mult_nonpos_nonneg of_nat_0_less_iff)
    have r: "int (length xs) mod P < P" "0 \<le> int (length xs) mod P" using assms by simp_all
    have "0 \<le> (t - 1) * P" using \<open>1 \<le> t\<close> assms by simp
    then have "int (length xs - nat ((t - 1) * P)) = int (length xs) - (t - 1) * P"
      using b(2) by linarith
    also note b(4)
    finally have len: "int (length xs - nat ((t - 1) * P))
        = (if int (length xs) mod P = 0 then P else int (length xs) mod P)" .
    then have "length xs - nat ((t - 1) * P) \<le> nat P" using r by (auto split: if_splits)
    then have "length (paginatedData xs t P) = length xs - nat ((t - 1) * P)"
      using \<open>1 \<le> t\<close> by (simp add: page)
    with len show ?thesis by simp
  qed
  have beyond: "paginatedData xs k P = []" if "t < k" for k
  proof -
    have "t * P \<le> (k - 1) * P" using that assms by (simp add: mult_right_mono)
    with b(1) have "int (length xs) \<le> (k - 1) * P" by simp
    then have "length xs \<le> nat ((k - 1) * P)" by linarith
    moreover have "1 \<le> k" using that b(3) by simp
    ultimately show ?thesis by (simp add: page)
  qed
  have cover: "concat (map (\<lambda>k. paginatedData xs k P) [1..t]) = xs"
  proof -
    have "[1..t] = map (\<lambda>i. int i + 1) [0..<nat t]"
      using b(3) by (auto intro!: nth_equalityI simp: nth_upt)
    then have "concat (map (\<lambda>k. paginatedData xs k P) [1..t])
        = concat (map (\<lambda>i. paginatedData xs (int i + 1) P) [0..<nat t])"
      by (simp add: comp_def)
    also have "\<dots> = concat (map (\<lambda>i. take (nat P) (drop (i * nat P) xs)) [0..<nat t])"
      using assms by (simp add: page nat_mult_distrib)
    also have "\<dots> = take (nat t * nat P) xs" by (rule pages_concat)
    also have "\<dots> = xs"
    proof -
      have "int (nat t * nat P) = t * P" using b(3) assms by simp
      with b(1) have "length xs \<le> nat t * nat P" by linarith
      then show ?thesis by simp
    qed
    finally show ?thesis .
  qed
  have scen: "totalPages (length xs) 5 = Pages 3 \<and> paginatedData xs 1 5 = take 5 xs
          \<and> paginatedData xs 3 5 = [xs ! 10, xs ! 11]" if l: "length xs = 12"
  proof -
    have "totalPages (length xs) 5 = Pages 3"
      by (simp add: l totalPages_div)
    moreover have "paginatedData xs 1 5 = take 5 xs"
      by (simp add: slice_page)
    moreover have "paginatedData xs 3 5 = [xs ! 10, xs ! 11]"
      using l by (auto simp: slice_page intro!: nth_equalityI simp: less_Suc_eq numeral_2_eq_2)
    ultimately show ?thesis by simp
  qed
  show ?thesis
    unfolding ceil using total page full last beyond cover scen by blast
qed


theorem pagination_pages_witness:
  "(0::int) < 5
   \<and> length twelve_certs = 12
   \<and> totalPages (length twelve_certs) 5 = Pages 3
   \<and> map cert_id (paginatedData twelve_certs 1 5)
       = [''cert-a'', ''cert-b'', ''cert-c'', ''cert-d'', ''cert-e'']
   \<and> map cert_id (paginatedData twelve_certs 3 5) = [''cert-k'', ''cert-l'']
   \<and> paginatedData twelve_certs 4 5 = []"
proof -
  have pos: "(0::int) < 5" by simp
  have len: "length twelve_certs = 12" by (simp add: twelve_certs_def)
  have ceil: "\<lceil>real (length twelve_certs) / real_of_int 5\<rceil> = 3"
    unfolding len by (simp add: ceiling_real_div)
  from pagination_pages [OF pos, of twelve_certs] len ceil
  have "totalPages (length twelve_certs) 5 = Pages 3"
    and "paginatedData twelve_certs 1 5 = take 5 twelve_certs"
    and "paginatedData twelve_certs 3 5 = [twelve_certs ! 10, twelve_certs ! 11]"
    and "paginatedData twelve_certs 4 5 = []"
    by simp_all
  then show ?thesis
    using len by (simp add: twelve_certs_def)
qed

subsection \<open>The order of the sorted result\<close>

lemma Array_sort_by_key:
  fixes k :: "'a \<Rightarrow> int"
  assumes "\<forall>x \<in> set xs. \<forall>y \<in> set xs. (SortCompare f x y \<le> 0 \<longleftrightarrow> k x \<le> k y)"
  shows "sorted_wrt (\<lambda>a b. k a \<le> k b) (Array_sort f xs)"
    and "filter (\<lambda>y. k y = t) (Array_sort f xs) = filter (\<lambda>y. k y = t) xs"
proof -
  have eq: "Array_sort f xs = sort_key k xs"
    using assms by (rule Array_sort_sort_key)
  have "sorted (map k (sort_key k xs))" by (rule sorted_sort_key)
  then show "sorted_wrt (\<lambda>a b. k a \<le> k b) (Array_sort f xs)"
    by (simp add: eq sorted_map)
  show "filter (\<lambda>y. k y = t) (Array_sort f xs) = filter (\<lambda>y. k y = t) xs"
    by (simp add: eq sort_key_stable)
qed

lemma num_le_the: "a \<noteq> None \<Longrightarrow> b \<noteq> None \<Longrightarrow> num_le a b \<longleftrightarrow> the a \<le> the b"
  by (cases a; cases b) (simp_all add: num_le_def)

text \<open>A comparator that subtracts valid keys, in either direction.\<close>

lemma compare_asc:
  fixes key :: "'a \<Rightarrow> number"
  assumes "\<forall>x \<in> set xs. key x \<noteq> None" and "\<forall>x y. f x y = num_minus (key x) (key y)"
  shows "\<forall>x \<in> set xs. \<forall>y \<in> set xs. (SortCompare f x y \<le> 0 \<longleftrightarrow> the (key x) \<le> the (key y))"
proof (intro ballI)
  fix x y assume "x \<in> set xs" "y \<in> set xs"
  with assms(1) obtain a b where "key x = Some a" "key y = Some b" by blast
  with assms(2) show "SortCompare f x y \<le> 0 \<longleftrightarrow> the (key x) \<le> the (key y)"
    by (simp add: SortCompare_def num_minus_def)
qed

lemma compare_desc:
  fixes key :: "'a \<Rightarrow> number"
  assumes "\<forall>x \<in> set xs. key x \<noteq> None" and "\<forall>x y. f x y = num_minus (key y) (key x)"
  shows "\<forall>x \<in> set xs. \<forall>y \<in> set xs.
           (SortCompare f x y \<le> 0 \<longleftrightarrow> - the (key x) \<le> - the (key y))"
proof (intro ballI)
  fix x y assume "x \<in> set xs" "y \<in> set xs"
  with assms(1) obtain a b where "key x = Some a" "key y = Some b" by blast
  with assms(2) show "SortCompare f x y \<le> 0 \<longleftrightarrow> - the (key x) \<le> - the (key y)"
    by (simp add: SortCompare_def num_minus_def)
qed

lemma stable_number_key:
  fixes key :: "'a \<Rightarrow> number"
  assumes valid: "\<forall>x \<in> set xs. key x \<noteq> None"
    and st: "\<And>v. filter (\<lambda>y. the (key y) = v) (Array_sort f xs) = filter (\<lambda>y. the (key y) = v) xs"
  shows "filter (\<lambda>y. key y = t) (Array_sort f xs) = filter (\<lambda>y. key y = t) xs"
proof (cases t)
  case None
  then show ?thesis using valid set_Array_sort [of f xs] by (simp add: filter_False)
next
  case (Some v)
  have "filter (\<lambda>y. key y = t) (Array_sort f xs) = filter (\<lambda>y. the (key y) = v) (Array_sort f xs)"
    using valid set_Array_sort [of f xs] Some by (intro filter_cong) auto
  also have "\<dots> = filter (\<lambda>y. the (key y) = v) xs" by (rule st)
  also have "\<dots> = filter (\<lambda>y. key y = t) xs"
    using valid Some by (intro filter_cong) auto
  finally show ?thesis .
qed

lemma sort_ascending:
  fixes key :: "'a \<Rightarrow> number"
  assumes valid: "\<forall>x \<in> set xs. key x \<noteq> None"
    and f: "\<forall>x y. f x y = num_minus (key x) (key y)"
  shows "sorted_wrt (\<lambda>a b. num_le (key a) (key b)) (Array_sort f xs)"
    and "filter (\<lambda>y. key y = t) (Array_sort f xs) = filter (\<lambda>y. key y = t) xs"
proof -
  note c = compare_asc [OF valid f]
  have "sorted_wrt (\<lambda>a b. the (key a) \<le> the (key b)) (Array_sort f xs)"
    using c by (rule Array_sort_by_key(1))
  then show "sorted_wrt (\<lambda>a b. num_le (key a) (key b)) (Array_sort f xs)"
    using valid set_Array_sort [of f xs]
    by (elim sorted_wrt_mono_rel [rotated]) (simp_all add: num_le_the)
  show "filter (\<lambda>y. key y = t) (Array_sort f xs) = filter (\<lambda>y. key y = t) xs"
    using valid Array_sort_by_key(2) [OF c] by (rule stable_number_key)
qed

lemma sort_descending:
  fixes key :: "'a \<Rightarrow> number"
  assumes valid: "\<forall>x \<in> set xs. key x \<noteq> None"
    and f: "\<forall>x y. f x y = num_minus (key y) (key x)"
  shows "sorted_wrt (\<lambda>a b. num_le (key b) (key a)) (Array_sort f xs)"
    and "filter (\<lambda>y. key y = t) (Array_sort f xs) = filter (\<lambda>y. key y = t) xs"
proof -
  note c = compare_desc [OF valid f]
  have "sorted_wrt (\<lambda>a b. - the (key a) \<le> - the (key b)) (Array_sort f xs)"
    using c by (rule Array_sort_by_key(1))
  then show "sorted_wrt (\<lambda>a b. num_le (key b) (key a)) (Array_sort f xs)"
    using valid set_Array_sort [of f xs]
    by (elim sorted_wrt_mono_rel [rotated]) (simp_all add: num_le_the)
  have "filter (\<lambda>y. the (key y) = v) (Array_sort f xs) = filter (\<lambda>y. the (key y) = v) xs" for v
    using Array_sort_by_key(2) [OF c, of "- v"] by simp
  with valid show "filter (\<lambda>y. key y = t) (Array_sort f xs) = filter (\<lambda>y. key y = t) xs"
    by (rule stable_number_key)
qed


lemma stable_in_collection:
  assumes "filter K (Array_sort f (filter M xs)) = filter K (filter M xs)"
  shows "filter K (Array_sort f (filter M xs))
           = filter (\<lambda>x. K x \<and> x \<in> set (Array_sort f (filter M xs))) xs"
proof -
  have "filter K (filter M xs) = filter (\<lambda>x. K x \<and> x \<in> set (Array_sort f (filter M xs))) xs"
    unfolding set_Array_sort filter_filter by (intro filter_cong) auto
  with assms show ?thesis by simp
qed

lemma Certificates_filteredData_sort:
  "Certificates_filteredData G L certs q f d
     = Array_sort (Certificates_compare G d)
         (filter (\<lambda>c. (q = [] \<or> Certificates_search L (L q) c)
                       \<and> (f = ''all'' \<or> domain c = f)) certs)"
  by (auto simp: Certificates_filteredData_def intro: filter_cong)

lemma SSHKeys_filteredData_sort:
  "SSHKeys_filteredData L keys q f d
     = Array_sort (SSHKeys_compare d)
         (filter (\<lambda>k. (q = [] \<or> SSHKeys_search L (L q) k)
                       \<and> (f = ''all'' \<or> trust_string (trustLevel k) = f)) keys)"
  by (auto simp: SSHKeys_filteredData_def intro: filter_cong)

lemma AuditLogs_filteredData_sort:
  "AuditLogs_filteredData G ls a dr
     = Array_sort (AuditLogs_compare G)
         (filter (\<lambda>l. (a = ''all'' \<or> actionType l = a)
                       \<and> (case range_from dr of None \<Rightarrow> True
                           | Some lo \<Rightarrow> num_le (Some lo) (G (timestamp l)))
                       \<and> (case range_to dr of None \<Rightarrow> True
                           | Some hi \<Rightarrow> num_le (G (timestamp l)) (Some hi))) ls)"
  by (auto simp: AuditLogs_filteredData_def split: option.splits intro: filter_cong)

text \<open>
  Claim C5, amended. For every collection whose expiry dates (certificates) and
  timestamps (audit logs) are valid dates, the sort of each page orders the result by its
  key and direction: certificates by the expiry time, ascending or descending; SSH keys by
  the trust ranking high > medium > low, descending or ascending; audit logs by the
  timestamp, descending. \<open>sorted_wrt\<close> compares every earlier record with every later
  one, adjacent pairs among them. Records with equal keys keep the relative order they
  have in the collection. The SSH keys need no hypothesis.

  As stated, for every collection, the claim fails: a date string that is not a date
  has the time value \<^verbatim>\<open>NaN\<close>, the comparator returns \<^verbatim>\<open>NaN\<close> on it, the sort
  reads that as equal, and no order of the records satisfies the comparison of adjacent
  keys.
\<close>

theorem sort_order_stable:
  assumes certs_valid: "\<forall>c \<in> set certs. G (expiryDate c) \<noteq> None"
    and logs_valid: "\<forall>l \<in> set ls. G (timestamp l) \<noteq> None"
  shows
    "sorted_wrt (\<lambda>a b. num_le (G (expiryDate a)) (G (expiryDate b)))
       (Certificates_filteredData G L certs q f Asc)
     \<and> sorted_wrt (\<lambda>a b. num_le (G (expiryDate b)) (G (expiryDate a)))
         (Certificates_filteredData G L certs q f Desc)
     \<and> filter (\<lambda>c. G (expiryDate c) = t) (Certificates_filteredData G L certs q f d)
         = filter (\<lambda>c. G (expiryDate c) = t \<and> c \<in> set (Certificates_filteredData G L certs q f d))
             certs
     \<and> sorted_wrt (\<lambda>a b. trustOrder (trustLevel b) \<le> trustOrder (trustLevel a))
         (SSHKeys_filteredData L keys q2 f2 Desc)
     \<and> sorted_wrt (\<lambda>a b. trustOrder (trustLevel a) \<le> trustOrder (trustLevel b))
         (SSHKeys_filteredData L keys q2 f2 Asc)
     \<and> filter (\<lambda>k. trustOrder (trustLevel k) = n) (SSHKeys_filteredData L keys q2 f2 d2)
         = filter (\<lambda>k. trustOrder (trustLevel k) = n
                        \<and> k \<in> set (SSHKeys_filteredData L keys q2 f2 d2)) keys
     \<and> sorted_wrt (\<lambda>a b. num_le (G (timestamp b)) (G (timestamp a)))
         (AuditLogs_filteredData G ls a dr)
     \<and> filter (\<lambda>l. G (timestamp l) = t3) (AuditLogs_filteredData G ls a dr)
         = filter (\<lambda>l. G (timestamp l) = t3 \<and> l \<in> set (AuditLogs_filteredData G ls a dr)) ls"
proof -
  let ?ck = "\<lambda>c. G (expiryDate c)"
  let ?lk = "\<lambda>l. G (timestamp l)"
  let ?kk = "\<lambda>k. trustOrder (trustLevel k)"
  have cv: "\<forall>c \<in> set (filter M certs). ?ck c \<noteq> None" for M
    using certs_valid by simp
  have lv: "\<forall>l \<in> set (filter M ls). ?lk l \<noteq> None" for M
    using logs_valid by simp
  have asc: "\<forall>x y. Certificates_compare G Asc x y = num_minus (?ck x) (?ck y)"
    by (simp add: Certificates_compare_def)
  have desc: "\<forall>x y. Certificates_compare G Desc x y = num_minus (?ck y) (?ck x)"
    by (simp add: Certificates_compare_def)
  have c_asc: "sorted_wrt (\<lambda>a b. num_le (?ck a) (?ck b)) (Certificates_filteredData G L certs q f Asc)"
    unfolding Certificates_filteredData_sort by (rule sort_ascending(1) [OF cv asc])
  have c_desc: "sorted_wrt (\<lambda>a b. num_le (?ck b) (?ck a)) (Certificates_filteredData G L certs q f Desc)"
    unfolding Certificates_filteredData_sort by (rule sort_descending(1) [OF cv desc])
  have cs: "filter (\<lambda>c. ?ck c = t) (Array_sort (Certificates_compare G d) (filter M certs))
        = filter (\<lambda>c. ?ck c = t) (filter M certs)" for M
  proof (cases d)
    case Asc
    then show ?thesis using sort_ascending(2) [OF cv asc] by simp
  next
    case Desc
    then show ?thesis using sort_descending(2) [OF cv desc] by simp
  qed
  have c_stable: "filter (\<lambda>c. ?ck c = t) (Certificates_filteredData G L certs q f d)
         = filter (\<lambda>c. ?ck c = t \<and> c \<in> set (Certificates_filteredData G L certs q f d)) certs"
    unfolding Certificates_filteredData_sort by (rule stable_in_collection) (rule cs)
  have kd: "\<forall>x \<in> set xs. \<forall>y \<in> set xs.
      (SortCompare (SSHKeys_compare Desc) x y \<le> 0 \<longleftrightarrow> - ?kk x \<le> - ?kk y)" for xs
    by (simp add: SortCompare_def SSHKeys_compare_def)
  have ka: "\<forall>x \<in> set xs. \<forall>y \<in> set xs.
      (SortCompare (SSHKeys_compare Asc) x y \<le> 0 \<longleftrightarrow> ?kk x \<le> ?kk y)" for xs
    by (simp add: SortCompare_def SSHKeys_compare_def)
  have k_desc: "sorted_wrt (\<lambda>a b. ?kk b \<le> ?kk a) (SSHKeys_filteredData L keys q2 f2 Desc)"
    unfolding SSHKeys_filteredData_sort using Array_sort_by_key(1) [OF kd] by simp
  have k_asc: "sorted_wrt (\<lambda>a b. ?kk a \<le> ?kk b) (SSHKeys_filteredData L keys q2 f2 Asc)"
    unfolding SSHKeys_filteredData_sort using Array_sort_by_key(1) [OF ka] by simp
  have ks: "filter (\<lambda>k. ?kk k = n) (Array_sort (SSHKeys_compare d2) (filter M keys))
        = filter (\<lambda>k. ?kk k = n) (filter M keys)" for M
  proof (cases d2)
    case Asc
    then show ?thesis using Array_sort_by_key(2) [OF ka] by simp
  next
    case Desc
    then show ?thesis using Array_sort_by_key(2) [OF kd, where t = "- n"] by simp
  qed
  have k_stable: "filter (\<lambda>k. ?kk k = n) (SSHKeys_filteredData L keys q2 f2 d2)
         = filter (\<lambda>k. ?kk k = n \<and> k \<in> set (SSHKeys_filteredData L keys q2 f2 d2)) keys"
    unfolding SSHKeys_filteredData_sort by (rule stable_in_collection) (rule ks)
  have ldesc: "\<forall>x y. AuditLogs_compare G x y = num_minus (?lk y) (?lk x)"
    by (simp add: AuditLogs_compare_def)
  have l_desc: "sorted_wrt (\<lambda>a b. num_le (?lk b) (?lk a)) (AuditLogs_filteredData G ls a dr)"
    unfolding AuditLogs_filteredData_sort by (rule sort_descending(1) [OF lv ldesc])
  have l_stable: "filter (\<lambda>l. ?lk l = t3) (AuditLogs_filteredData G ls a dr)
         = filter (\<lambda>l. ?lk l = t3 \<and> l \<in> set (AuditLogs_filteredData G ls a dr)) ls"
    unfolding AuditLogs_filteredData_sort
    by (rule stable_in_collection) (rule sort_descending(2) [OF lv ldesc])
  show ?thesis
    using c_asc c_desc c_stable k_desc k_asc k_stable l_desc l_stable by blast
qed


lemmas sample_simps =
  Certificates_filteredData_def Certificates_compare_def SSHKeys_filteredData_def
  SSHKeys_compare_def AuditLogs_filteredData_def AuditLogs_compare_def sample_getTime_def
  Array_sort_def SortCompare_def num_minus_def num_le_def
  certA_def certB_def certC_def certD_def keyA_def keyB_def keyC_def logA_def logB_def logC_def

theorem sort_order_stable_witness:
  "Certificates_filteredData sample_getTime sample_toLowerCase [certA, certB, certC] [] ''all'' Asc
     = [certB, certA, certC]
   \<and> sorted_wrt (\<lambda>a b. num_le (sample_getTime (expiryDate a)) (sample_getTime (expiryDate b)))
        [certB, certA, certC]
   \<and> Certificates_filteredData sample_getTime sample_toLowerCase [certA, certB, certC] [] ''all'' Desc
     = [certC, certA, certB]
   \<and> sorted_wrt (\<lambda>a b. num_le (sample_getTime (expiryDate b)) (sample_getTime (expiryDate a)))
        [certC, certA, certB]
   \<and> SSHKeys_filteredData sample_toLowerCase [keyA, keyB, keyC] [] ''all'' Desc = [keyB, keyA, keyC]
   \<and> sorted_wrt (\<lambda>a b. trustOrder (trustLevel b) \<le> trustOrder (trustLevel a)) [keyB, keyA, keyC]
   \<and> AuditLogs_filteredData sample_getTime [logA, logB, logC] ''all''
        \<lparr>range_from = None, range_to = None\<rparr> = [logC, logA, logB]
   \<and> sorted_wrt (\<lambda>a b. num_le (sample_getTime (timestamp b)) (sample_getTime (timestamp a)))
        [logC, logA, logB]"
proof -
  have cv: "\<forall>c \<in> set [certA, certB, certC]. sample_getTime (expiryDate c) \<noteq> None"
    by (simp add: sample_simps)
  have lv: "\<forall>l \<in> set [logA, logB, logC]. sample_getTime (timestamp l) \<noteq> None"
    by (simp add: sample_simps)
  have c1: "Certificates_filteredData sample_getTime sample_toLowerCase [certA, certB, certC] [] ''all'' Asc
     = [certB, certA, certC]"
    by (simp add: sample_simps)
  have c2: "Certificates_filteredData sample_getTime sample_toLowerCase [certA, certB, certC] [] ''all'' Desc
     = [certC, certA, certB]"
    by (simp add: sample_simps)
  have k: "SSHKeys_filteredData sample_toLowerCase [keyA, keyB, keyC] [] ''all'' Desc = [keyB, keyA, keyC]"
    by (simp add: sample_simps)
  have l: "AuditLogs_filteredData sample_getTime [logA, logB, logC] ''all''
        \<lparr>range_from = None, range_to = None\<rparr> = [logC, logA, logB]"
    by (simp add: sample_simps)
  show ?thesis
    using sort_order_stable [OF cv lv, where L = sample_toLowerCase and q = "[]" and f = "''all''"
        and keys = "[keyA, keyB, keyC]"
        and ?q2.0 = "[]" and ?f2.0 = "''all''" and a = "''all''"
        and dr = "\<lparr>range_from = None, range_to = None\<rparr>"]
    unfolding c1 c2 k l by blast
qed

theorem sort_order_counterexample:
  "Certificates_filteredData sample_getTime sample_toLowerCase [certC, certD, certA] [] ''all'' Asc
     = [certC, certD, certA]
   \<and> \<not> num_le (sample_getTime (expiryDate certC)) (sample_getTime (expiryDate certD))
   \<and> \<not> num_le (sample_getTime (expiryDate certD)) (sample_getTime (expiryDate certA))
   \<and> \<not> num_le (sample_getTime (expiryDate certC)) (sample_getTime (expiryDate certA))"
  by (simp add: sample_simps)

subsection \<open>The cache-backed loader\<close>

lemma Certificates_activation:
  "Certificates_activate P S D T store
     = Certificates_effects S (Certificates_mount store)
         (store CACHE_KEY \<noteq> None \<and> store CACHE_KEY \<noteq> Some [] \<longrightarrow> P (the (store CACHE_KEY)) \<noteq> None)
         (Certificates_loadData P S D (Certificates_mount store))"
  by (simp add: Certificates_activate_def Certificates_step_def Certificates_mount_def Let_def)

lemma AuditLogs_activation:
  "AuditLogs_activate G P S D store
     = AuditLogs_loadData P S D (AuditLogs_mount store)"
  by (simp add: AuditLogs_activate_def AuditLogs_step_def AuditLogs_mount_def)

text \<open>While the load is pending the page writes nothing to the storage.\<close>

lemma pending_load_storage:
  assumes "loading s" and "certificates s = []" and "e \<noteq> LoadResolved"
  shows "localStorage (Certificates_step P S D T e s) = localStorage s
    \<and> loading (Certificates_step P S D T e s) \<and> certificates (Certificates_step P S D T e s) = []"
  using assms
  by (cases e)
    (simp_all add: Certificates_step_def Certificates_effects_def Certificates_persist_def
      handleEdit_def handleSaveEdit_def Let_def split: option.splits)

lemma activate_cached:
  assumes "store CACHE_KEY = Some cached" "cached \<noteq> []" "P cached = Some parsed"
  shows "certificates (Certificates_activate P S D T store) = parsed"
    and "error (Certificates_activate P S D T store) = None"
    and "localStorage (Certificates_activate P S D T store)
          = (if parsed = [] then store else store(CACHE_KEY \<mapsto> S parsed))"
  using assms unfolding Certificates_activation
  by (simp_all add: Certificates_effects_def Certificates_loadData_def Certificates_persist_def
      Certificates_mount_def)

lemma activate_absent:
  assumes "store CACHE_KEY = None \<or> store CACHE_KEY = Some []"
  shows "certificates (Certificates_activate P S D T store) = D"
    and "error (Certificates_activate P S D T store) = None"
    and "localStorage (Certificates_activate P S D T store) = store(CACHE_KEY \<mapsto> S D)"
  using assms unfolding Certificates_activation
  by (auto simp: Certificates_effects_def Certificates_loadData_def Certificates_persist_def
      Certificates_mount_def)

lemma activate_unparseable:
  assumes "store CACHE_KEY = Some cached" "cached \<noteq> []" "P cached = None"
  shows "error (Certificates_activate P S D T store) = Some ''Failed to load certificates''"
  using assms unfolding Certificates_activation
  by (simp add: Certificates_effects_def Certificates_loadData_def Certificates_persist_def
      Certificates_mount_def)

text \<open>
  Claim C2, amended. On every activation of the loader of the certificates page and of
  the audit log page: when the cached string is present, not empty and parses, the parsed
  collection is adopted (the certificates page then saves it again when it is not empty);
  when no string is cached, or the empty one, the bundled dataset is adopted and saved;
  when the cached string is present and does not parse, the error message is set, the
  collection stays empty and the storage is as it was. Loading has ended in all three.

  As stated the claim has the unparseable snapshot replaced by the bundled dataset; the
  \<^verbatim>\<open>catch\<close> of \<^verbatim>\<open>loadData\<close> sets the error instead.
\<close>

theorem loader_outcomes:
  assumes c_def: "c = Certificates_activate P S D T store"
    and a_def: "a = AuditLogs_activate G PL SL DL lstore"
  shows
    "(store CACHE_KEY = Some cached \<and> cached \<noteq> [] \<and> P cached = Some parsed \<longrightarrow>
        certificates c = parsed \<and> error c = None \<and> \<not> loading c
        \<and> localStorage c = (if parsed = [] then store else store(CACHE_KEY \<mapsto> S parsed)))
     \<and> (store CACHE_KEY = None \<or> store CACHE_KEY = Some [] \<longrightarrow>
        certificates c = D \<and> error c = None \<and> \<not> loading c
        \<and> localStorage c = store(CACHE_KEY \<mapsto> S D))
     \<and> (store CACHE_KEY = Some cached \<and> cached \<noteq> [] \<and> P cached = None \<longrightarrow>
        certificates c = [] \<and> error c = Some ''Failed to load certificates'' \<and> \<not> loading c
        \<and> localStorage c = store)
     \<and> (lstore LOGS_CACHE_KEY = Some lcached \<and> lcached \<noteq> [] \<and> PL lcached = Some lparsed \<longrightarrow>
        logs a = lparsed \<and> logs_error a = None \<and> \<not> logs_loading a \<and> logs_storage a = lstore)
     \<and> (lstore LOGS_CACHE_KEY = None \<or> lstore LOGS_CACHE_KEY = Some [] \<longrightarrow>
        logs a = DL \<and> logs_error a = None \<and> \<not> logs_loading a
        \<and> logs_storage a = lstore(LOGS_CACHE_KEY \<mapsto> SL DL))
     \<and> (lstore LOGS_CACHE_KEY = Some lcached \<and> lcached \<noteq> [] \<and> PL lcached = None \<longrightarrow>
        logs a = [] \<and> logs_error a = Some ''Failed to load audit logs'' \<and> \<not> logs_loading a
        \<and> logs_storage a = lstore)"
proof -
  have c1: "certificates c = parsed \<and> error c = None \<and> \<not> loading c
        \<and> localStorage c = (if parsed = [] then store else store(CACHE_KEY \<mapsto> S parsed))"
    if "store CACHE_KEY = Some cached" "cached \<noteq> []" "P cached = Some parsed"
    using that unfolding c_def Certificates_activation
    by (simp add: Certificates_effects_def Certificates_loadData_def Certificates_persist_def
        Certificates_mount_def)
  have c2: "certificates c = D \<and> error c = None \<and> \<not> loading c
        \<and> localStorage c = store(CACHE_KEY \<mapsto> S D)"
    if "store CACHE_KEY = None \<or> store CACHE_KEY = Some []"
    using that unfolding c_def Certificates_activation
    by (auto simp: Certificates_effects_def Certificates_loadData_def Certificates_persist_def
        Certificates_mount_def)
  have c3: "certificates c = [] \<and> error c = Some ''Failed to load certificates'' \<and> \<not> loading c
        \<and> localStorage c = store"
    if "store CACHE_KEY = Some cached" "cached \<noteq> []" "P cached = None"
    using that unfolding c_def Certificates_activation
    by (simp add: Certificates_effects_def Certificates_loadData_def Certificates_persist_def
        Certificates_mount_def)
  have a1: "logs a = lparsed \<and> logs_error a = None \<and> \<not> logs_loading a \<and> logs_storage a = lstore"
    if "lstore LOGS_CACHE_KEY = Some lcached" "lcached \<noteq> []" "PL lcached = Some lparsed"
    using that unfolding a_def AuditLogs_activation
    by (simp add: AuditLogs_loadData_def AuditLogs_mount_def)
  have a2: "logs a = DL \<and> logs_error a = None \<and> \<not> logs_loading a
        \<and> logs_storage a = lstore(LOGS_CACHE_KEY \<mapsto> SL DL)"
    if "lstore LOGS_CACHE_KEY = None \<or> lstore LOGS_CACHE_KEY = Some []"
    using that unfolding a_def AuditLogs_activation
    by (auto simp: AuditLogs_loadData_def AuditLogs_mount_def)
  have a3: "logs a = [] \<and> logs_error a = Some ''Failed to load audit logs'' \<and> \<not> logs_loading a
        \<and> logs_storage a = lstore"
    if "lstore LOGS_CACHE_KEY = Some lcached" "lcached \<noteq> []" "PL lcached = None"
    using that unfolding a_def AuditLogs_activation
    by (simp add: AuditLogs_loadData_def AuditLogs_mount_def)
  show ?thesis
    using c1 c2 c3 a1 a2 a3 by blast
qed

lemmas activation_simps =
  Certificates_activation Certificates_effects_def Certificates_loadData_def
  Certificates_persist_def Certificates_mount_def AuditLogs_activation AuditLogs_loadData_def
  AuditLogs_mount_def sample_JSON_parse_def sample_JSON_parse_logs_def sample_stringify_def sample_stringify_logs_def

theorem loader_outcomes_witness:
  "certificates (Certificates_activate sample_JSON_parse sample_stringify [certC] sample_trim
      [CACHE_KEY \<mapsto> ''[cert-1:API Gateway;cert-2:Mail;]'']) = [certA, certB]
   \<and> localStorage (Certificates_activate sample_JSON_parse sample_stringify [certC] sample_trim
      [CACHE_KEY \<mapsto> ''[cert-1:API Gateway;cert-2:Mail;]''])
     = [CACHE_KEY \<mapsto> ''[cert-1:API Gateway;cert-2:Mail;]'']
   \<and> certificates (Certificates_activate sample_JSON_parse sample_stringify [certC] sample_trim Map.empty)
     = [certC]
   \<and> localStorage (Certificates_activate sample_JSON_parse sample_stringify [certC] sample_trim Map.empty)
     = [CACHE_KEY \<mapsto> ''[cert-3:Intranet;]'']
   \<and> error (Certificates_activate sample_JSON_parse sample_stringify [certC] sample_trim
      [CACHE_KEY \<mapsto> ''not json'']) = Some ''Failed to load certificates''
   \<and> logs (AuditLogs_activate sample_getTime sample_JSON_parse_logs sample_stringify_logs [logB]
      [LOGS_CACHE_KEY \<mapsto> ''[log-1;]'']) = [logA]
   \<and> logs (AuditLogs_activate sample_getTime sample_JSON_parse_logs sample_stringify_logs [logB]
      Map.empty) = [logB]
   \<and> logs_error (AuditLogs_activate sample_getTime sample_JSON_parse_logs sample_stringify_logs
      [logB] [LOGS_CACHE_KEY \<mapsto> ''not json'']) = Some ''Failed to load audit logs''"
proof -
  let ?P = sample_JSON_parse and ?PL = sample_JSON_parse_logs
  let ?ab = "''[cert-1:API Gateway;cert-2:Mail;]''"
  have s: "sample_stringify [certA, certB] = ?ab" "sample_stringify [certC] = ''[cert-3:Intranet;]''"
    "sample_stringify_logs [logA] = ''[log-1;]''"
    by (simp_all add: sample_stringify_def sample_stringify_logs_def certA_def certB_def
        certC_def logA_def)
  have p: "?P ?ab = Some [certA, certB]" "?P ''not json'' = None"
    "?PL ''[log-1;]'' = Some [logA]" "?PL ''not json'' = None"
    by (simp_all add: sample_JSON_parse_def sample_JSON_parse_logs_def s)
  note out = loader_outcomes [OF refl refl, where P = "?P" and S = sample_stringify
      and D = "[certC]" and T = sample_trim and G = sample_getTime and PL = "?PL" and SL = sample_stringify_logs
      and DL = "[logB]"]
  note out_hit = out [where store = "[CACHE_KEY \<mapsto> ?ab]" and cached = "?ab"
      and parsed = "[certA, certB]" and lstore = "[LOGS_CACHE_KEY \<mapsto> ''[log-1;]'']"
      and lcached = "''[log-1;]''" and lparsed = "[logA]"]
  note out_miss = out [where store = Map.empty and lstore = Map.empty]
  note out_bad = out [where store = "[CACHE_KEY \<mapsto> ''not json'']" and cached = "''not json''"
      and lstore = "[LOGS_CACHE_KEY \<mapsto> ''not json'']" and lcached = "''not json''"]
  from out_hit p s
  have hit: "certificates (Certificates_activate ?P sample_stringify [certC] sample_trim
      [CACHE_KEY \<mapsto> ?ab]) = [certA, certB]"
    "localStorage (Certificates_activate ?P sample_stringify [certC] sample_trim
      [CACHE_KEY \<mapsto> ?ab]) = [CACHE_KEY \<mapsto> ?ab]"
    "logs (AuditLogs_activate sample_getTime ?PL sample_stringify_logs [logB]
      [LOGS_CACHE_KEY \<mapsto> ''[log-1;]'']) = [logA]"
    by simp_all
  from out_miss s
  have miss: "certificates (Certificates_activate ?P sample_stringify [certC] sample_trim Map.empty) = [certC]"
    "localStorage (Certificates_activate ?P sample_stringify [certC] sample_trim Map.empty)
       = [CACHE_KEY \<mapsto> ''[cert-3:Intranet;]'']"
    "logs (AuditLogs_activate sample_getTime ?PL sample_stringify_logs [logB] Map.empty) = [logB]"
    by simp_all
  from out_bad p
  have bad: "error (Certificates_activate ?P sample_stringify [certC] sample_trim
      [CACHE_KEY \<mapsto> ''not json'']) = Some ''Failed to load certificates''"
    "logs_error (AuditLogs_activate sample_getTime ?PL sample_stringify_logs [logB]
      [LOGS_CACHE_KEY \<mapsto> ''not json'']) = Some ''Failed to load audit logs''"
    by simp_all
  from hit miss bad show ?thesis by simp
qed

theorem loader_unparseable_counterexample:
  "sample_JSON_parse ''not json'' = None
   \<and> error (Certificates_activate sample_JSON_parse sample_stringify [certC] sample_trim
        [CACHE_KEY \<mapsto> ''not json'']) = Some ''Failed to load certificates''
   \<and> certificates (Certificates_activate sample_JSON_parse sample_stringify [certC] sample_trim
        [CACHE_KEY \<mapsto> ''not json'']) = []
   \<and> certificates (Certificates_activate sample_JSON_parse sample_stringify [certC] sample_trim
        [CACHE_KEY \<mapsto> ''not json'']) \<noteq> [certC]
   \<and> localStorage (Certificates_activate sample_JSON_parse sample_stringify [certC] sample_trim
        [CACHE_KEY \<mapsto> ''not json'']) CACHE_KEY = Some ''not json''
   \<and> logs_error (AuditLogs_activate sample_getTime sample_JSON_parse_logs sample_stringify_logs
        [logB] [LOGS_CACHE_KEY \<mapsto> ''not json'']) = Some ''Failed to load audit logs''
   \<and> logs (AuditLogs_activate sample_getTime sample_JSON_parse_logs sample_stringify_logs
        [logB] [LOGS_CACHE_KEY \<mapsto> ''not json'']) = []"
  by (simp add: activation_simps)

subsection \<open>Incremental reveal of the audit log\<close>

lemma reveal_inv_mount: "reveal_inv G (AuditLogs_mount store)"
  by (simp add: reveal_inv_def AuditLogs_mount_def)

lemma loadData_displayCount:
  "displayCount (AuditLogs_loadData P S D s) = displayCount s"
  "\<not> logs_loading (AuditLogs_loadData P S D s)"
  by (simp_all add: AuditLogs_loadData_def Let_def split: option.splits)

lemma reveal_inv_step:
  assumes "reveal_inv G s"
  shows "reveal_inv G (AuditLogs_step G P S D e s)"
proof (cases e)
  case LogsLoadResolved
  show ?thesis
  proof (cases "logs_loading s")
    case True
    with assms have "displayCount s = PAGE_SIZE" by (simp add: reveal_inv_def)
    with True LogsLoadResolved show ?thesis
      by (simp add: reveal_inv_def AuditLogs_step_def loadData_displayCount)
  next
    case False
    with assms LogsLoadResolved show ?thesis by (simp add: AuditLogs_step_def)
  qed
next
  case (ObserverFired b)
  have f: "AuditLogs_filtered G (s\<lparr>displayCount := n\<rparr>) = AuditLogs_filtered G s" for n
    by (simp add: AuditLogs_filtered_def)
  from assms ObserverFired show ?thesis
    by (auto simp: reveal_inv_def AuditLogs_step_def handleObserver_def f)
next
  case (SetActionTypeFilter a)
  show ?thesis
  proof (cases "a = actionTypeFilter s")
    case True
    then have "s\<lparr>actionTypeFilter := a\<rparr> = s" by simp
    with assms SetActionTypeFilter True show ?thesis by (simp add: AuditLogs_step_def)
  next
    case False
    with assms SetActionTypeFilter show ?thesis
      by (simp add: reveal_inv_def AuditLogs_step_def)
  qed
next
  case (SetDateRange lo hi)
  with assms show ?thesis by (simp add: reveal_inv_def AuditLogs_step_def)
next
  case (ToggleRow i)
  have "AuditLogs_filtered G (s\<lparr>expandedRows := r\<rparr>) = AuditLogs_filtered G s" for r
    by (simp add: AuditLogs_filtered_def)
  with assms ToggleRow show ?thesis by (simp add: reveal_inv_def AuditLogs_step_def)
qed

lemma reveal_inv_run:
  "reveal_inv G s \<Longrightarrow> reveal_inv G (AuditLogs_run G P S D es s)"
  unfolding AuditLogs_run_def
  by (induction es arbitrary: s) (simp_all add: reveal_inv_step)

lemma step_displayCount_mono:
  assumes "\<not> filterChange e s"
  shows "displayCount s \<le> displayCount (AuditLogs_step G P S D e s)"
proof (cases e)
  case LogsLoadResolved
  then show ?thesis by (simp add: AuditLogs_step_def loadData_displayCount)
next
  case (ObserverFired b)
  then show ?thesis by (simp add: AuditLogs_step_def handleObserver_def hasMore_def)
next
  case (SetActionTypeFilter a)
  with assms show ?thesis by (simp add: AuditLogs_step_def)
next
  case (SetDateRange lo hi)
  with assms show ?thesis by simp
next
  case (ToggleRow i)
  then show ?thesis by (simp add: AuditLogs_step_def)
qed

text \<open>
  Claim C3, amended. In every state \<open>s\<close> the audit log page reaches from its mount by
  any sequence of events: the count is at most the larger of the first page size, 8, and
  the size of the current filtered collection; the rows shown are the first
  \<open>displayCount\<close> records of the current filtered collection, so never more than it
  has; an event that is not a change of filter does not lower the count; a change of
  filter sets it to 8; and the sentinel coming into view, when more records remain and
  loading has ended, sets it to the smaller of the count plus 8 and the size of the
  filtered collection, and otherwise leaves it.

  As stated, the count never exceeds the size of the filtered collection. It does: the
  count starts at 8 and is set back to 8 whatever the size, so with three records it is
  8.
\<close>

theorem reveal_invariant:
  assumes "s = AuditLogs_run G P S D es (AuditLogs_mount store)"
  shows "displayCount s \<le> max PAGE_SIZE (length (AuditLogs_filtered G s))
    \<and> displayedData G s = take (displayCount s) (AuditLogs_filtered G s)
    \<and> length (displayedData G s) \<le> length (AuditLogs_filtered G s)
    \<and> (\<not> filterChange e s \<longrightarrow> displayCount s \<le> displayCount (AuditLogs_step G P S D e s))
    \<and> (filterChange e s \<longrightarrow> displayCount (AuditLogs_step G P S D e s) = PAGE_SIZE)
    \<and> displayCount (AuditLogs_step G P S D (ObserverFired b) s)
        = (if b \<and> hasMore G s \<and> \<not> logs_loading s
           then min (displayCount s + PAGE_SIZE) (length (AuditLogs_filtered G s))
           else displayCount s)"
proof -
  have "reveal_inv G s"
    unfolding assms by (rule reveal_inv_run) (rule reveal_inv_mount)
  then have bound: "displayCount s \<le> max PAGE_SIZE (length (AuditLogs_filtered G s))"
    by (auto simp: reveal_inv_def)
  have shown: "displayedData G s = take (displayCount s) (AuditLogs_filtered G s)"
    by (simp add: displayedData_def slice_nonneg)
  then have rows: "length (displayedData G s) \<le> length (AuditLogs_filtered G s)"
    by simp
  have mono: "\<not> filterChange e s \<longrightarrow> displayCount s \<le> displayCount (AuditLogs_step G P S D e s)"
    by (simp add: step_displayCount_mono)
  have reset: "filterChange e s \<longrightarrow> displayCount (AuditLogs_step G P S D e s) = PAGE_SIZE"
    by (simp add: AuditLogs_step_def)
  have grow: "displayCount (AuditLogs_step G P S D (ObserverFired b) s)
        = (if b \<and> hasMore G s \<and> \<not> logs_loading s
           then min (displayCount s + PAGE_SIZE) (length (AuditLogs_filtered G s))
           else displayCount s)"
    by (simp add: AuditLogs_step_def handleObserver_def)
  from bound shown rows mono reset grow show ?thesis by blast
qed


lemmas audit_run_simps =
  AuditLogs_run_def AuditLogs_step_def AuditLogs_loadData_def AuditLogs_mount_def
  AuditLogs_filtered_def AuditLogs_filteredData_def length_Array_sort PAGE_SIZE_def

theorem reveal_invariant_witness:
  "displayCount (AuditLogs_run sample_getTime sample_JSON_parse_logs sample_stringify_logs
       twelve_logs [LogsLoadResolved] (AuditLogs_mount Map.empty)) = 8
   \<and> length (AuditLogs_filtered sample_getTime
       (AuditLogs_run sample_getTime sample_JSON_parse_logs sample_stringify_logs
          twelve_logs [LogsLoadResolved] (AuditLogs_mount Map.empty))) = 12
   \<and> displayCount (AuditLogs_step sample_getTime sample_JSON_parse_logs sample_stringify_logs
       twelve_logs (ObserverFired True)
       (AuditLogs_run sample_getTime sample_JSON_parse_logs sample_stringify_logs
          twelve_logs [LogsLoadResolved] (AuditLogs_mount Map.empty))) = 12
   \<and> displayCount (AuditLogs_run sample_getTime sample_JSON_parse_logs sample_stringify_logs
       twelve_logs [LogsLoadResolved] (AuditLogs_mount Map.empty))
     \<le> displayCount (AuditLogs_step sample_getTime sample_JSON_parse_logs sample_stringify_logs
       twelve_logs (ToggleRow ''log-a'')
       (AuditLogs_run sample_getTime sample_JSON_parse_logs sample_stringify_logs
          twelve_logs [LogsLoadResolved] (AuditLogs_mount Map.empty)))
   \<and> displayCount (AuditLogs_step sample_getTime sample_JSON_parse_logs sample_stringify_logs
       twelve_logs (SetActionTypeFilter ''ssh_key.create'')
       (AuditLogs_run sample_getTime sample_JSON_parse_logs sample_stringify_logs
          twelve_logs [LogsLoadResolved] (AuditLogs_mount Map.empty))) = 8"
proof -
  let ?run = "AuditLogs_run sample_getTime sample_JSON_parse_logs sample_stringify_logs twelve_logs"
  let ?s = "?run [LogsLoadResolved] (AuditLogs_mount Map.empty)"
  have len: "length twelve_logs = 12" by (simp add: twelve_logs_def)
  have d: "displayCount ?s = 8" "\<not> logs_loading ?s" "actionTypeFilter ?s = ''all''"
    by (simp_all add: audit_run_simps)
  have n: "length (AuditLogs_filtered sample_getTime ?s) = 12"
    by (simp add: audit_run_simps len)
  from d n have more: "hasMore sample_getTime ?s" by (simp add: hasMore_def)
  have fc: "filterChange (SetActionTypeFilter ''ssh_key.create'') ?s"
    "\<not> filterChange (ToggleRow ''log-a'') ?s"
    using d by simp_all
  note inv = reveal_invariant [OF refl, where G = sample_getTime
      and P = sample_JSON_parse_logs and S = sample_stringify_logs and D = twelve_logs
      and es = "[LogsLoadResolved]" and store = Map.empty and b = True]
  from inv [where e = "SetActionTypeFilter ''ssh_key.create''"]
    inv [where e = "ToggleRow ''log-a''"] d n more fc
  show ?thesis by (simp add: PAGE_SIZE_def)
qed

theorem reveal_bound_counterexample:
  "displayCount (AuditLogs_run sample_getTime sample_JSON_parse_logs sample_stringify_logs
       [logA, logB, logC] [LogsLoadResolved] (AuditLogs_mount Map.empty)) = 8
   \<and> length (AuditLogs_filtered sample_getTime
       (AuditLogs_run sample_getTime sample_JSON_parse_logs sample_stringify_logs
          [logA, logB, logC] [LogsLoadResolved] (AuditLogs_mount Map.empty))) = 3
   \<and> \<not> displayCount (AuditLogs_run sample_getTime sample_JSON_parse_logs
          sample_stringify_logs [logA, logB, logC] [LogsLoadResolved] (AuditLogs_mount Map.empty))
        \<le> length (AuditLogs_filtered sample_getTime
          (AuditLogs_run sample_getTime sample_JSON_parse_logs sample_stringify_logs
             [logA, logB, logC] [LogsLoadResolved] (AuditLogs_mount Map.empty)))"
  by (simp add: audit_run_simps)

subsection \<open>Editing the name of a certificate\<close>

lemma Certificates_step_save:
  "Certificates_step P S D T HandleSaveEdit s =
     (if editingCert s \<noteq> None \<and> T (editName s) \<noteq> []
      then Certificates_persist S (handleSaveEdit T s) else s)"
  by (auto simp: Certificates_step_def Certificates_effects_def handleSaveEdit_def
      Certificates_persist_def Let_def split: option.splits)

lemma sample_json:
  "sample_stringify [certA, certB, certC] = ''[cert-1:API Gateway;cert-2:Mail;cert-3:Intranet;]''"
  "sample_stringify [certA, certB\<lparr>name := ''Mail relay''\<rparr>, certC]
     = ''[cert-1:API Gateway;cert-2:Mail relay;cert-3:Intranet;]''"
  by (simp_all add: sample_stringify_def certA_def certB_def certC_def)

lemmas cert_run_simps =
  sample_run_def Certificates_run_def Certificates_step_def Certificates_effects_def
  Certificates_loadData_def Certificates_persist_def Certificates_mount_def handleEdit_def

lemma sample_run_editing:
  "sample_run [HandleEdit certB, SetEditName n] =
     \<lparr>certificates = [certA, certB, certC], loading = False, error = None, searchQuery = [],
      debouncedSearch = [], domainFilter = ''all'', sortDirection = Asc, currentPage = 1,
      pageSize = 5, selectedCert = None, editingCert = Some certB, editName = n,
      localStorage = [CACHE_KEY \<mapsto> sample_stringify [certA, certB, certC]],
      toasts = []\<rparr>"
  by (simp add: cert_run_simps)

lemma trim_samples:
  "sample_trim ''  Mail relay '' = ''Mail relay''" "sample_trim ''   '' = []"
  by (simp_all add: sample_trim_def ascii_space_def)

text \<open>
  Claim C6. Whatever the platform's \<^verbatim>\<open>trim\<close> strips (\<open>T\<close> below), when the
  save is confirmed while a certificate is being edited and the trimmed name is not empty: the collection after the save is the collection before it
  with the name of every record that has the identifier of the edited one replaced by
  the trimmed name, position by position; every other record and every other field of a
  renamed record is as before; when the collection is not empty, as it is when the
  edited record is one of its records, the whole collection is saved under the cache key.
  The drawer closes, one toast is added, and no other cell of the page changes.
\<close>

theorem saveEdit_renames_and_persists:
  assumes editing: "editingCert s = Some editing"
    and named: "T (editName s) \<noteq> []"
    and after: "s' = Certificates_step P S D T HandleSaveEdit s"
  shows "certificates s'
      = map (\<lambda>c. if cert_id c = cert_id editing then c\<lparr>name := T (editName s)\<rparr> else c)
          (certificates s)
    \<and> length (certificates s') = length (certificates s)
    \<and> (\<forall>i < length (certificates s).
          certificates s' ! i =
            (if cert_id (certificates s ! i) = cert_id editing
             then (certificates s ! i)\<lparr>name := T (editName s)\<rparr>
             else certificates s ! i))
    \<and> (certificates s \<noteq> [] \<longrightarrow>
          localStorage s' = (localStorage s)(CACHE_KEY \<mapsto> S (certificates s')))
    \<and> editingCert s' = None
    \<and> toasts s' = toasts s @
          [\<lparr>title = ''Certificate Updated'',
            description = [CHR 0x22] @ T (editName s) @ [CHR 0x22]
              @ '' has been updated successfully.''\<rparr>]
    \<and> loading s' = loading s \<and> error s' = error s \<and> searchQuery s' = searchQuery s
    \<and> debouncedSearch s' = debouncedSearch s \<and> domainFilter s' = domainFilter s
    \<and> sortDirection s' = sortDirection s \<and> currentPage s' = currentPage s
    \<and> pageSize s' = pageSize s \<and> selectedCert s' = selectedCert s \<and> editName s' = editName s"
proof -
  have s': "s' = Certificates_persist S (handleSaveEdit T s)"
    using editing named after by (simp add: Certificates_step_save)
  have certs: "certificates s'
      = map (\<lambda>c. if cert_id c = cert_id editing then c\<lparr>name := T (editName s)\<rparr> else c)
          (certificates s)"
    using editing named by (simp add: s' Certificates_persist_def handleSaveEdit_def)
  then have len: "length (certificates s') = length (certificates s)" by simp
  have nth: "\<forall>i < length (certificates s).
          certificates s' ! i =
            (if cert_id (certificates s ! i) = cert_id editing
             then (certificates s ! i)\<lparr>name := T (editName s)\<rparr>
             else certificates s ! i)"
    unfolding certs by simp
  have store: "certificates s \<noteq> [] \<longrightarrow>
          localStorage s' = (localStorage s)(CACHE_KEY \<mapsto> S (certificates s'))"
    using editing named by (simp add: s' Certificates_persist_def handleSaveEdit_def)
  have rest: "editingCert s' = None
    \<and> toasts s' = toasts s @
          [\<lparr>title = ''Certificate Updated'',
            description = [CHR 0x22] @ T (editName s) @ [CHR 0x22]
              @ '' has been updated successfully.''\<rparr>]
    \<and> loading s' = loading s \<and> error s' = error s \<and> searchQuery s' = searchQuery s
    \<and> debouncedSearch s' = debouncedSearch s \<and> domainFilter s' = domainFilter s
    \<and> sortDirection s' = sortDirection s \<and> currentPage s' = currentPage s
    \<and> pageSize s' = pageSize s \<and> selectedCert s' = selectedCert s \<and> editName s' = editName s"
    using editing named by (simp add: s' Certificates_persist_def handleSaveEdit_def)
  from certs len nth store rest show ?thesis by blast
qed

theorem saveEdit_renames_and_persists_witness:
  "editingCert (sample_run [HandleEdit certB, SetEditName ''  Mail relay '']) = Some certB
   \<and> sample_trim (editName (sample_run [HandleEdit certB, SetEditName ''  Mail relay '']))
       = ''Mail relay''
   \<and> certificates
        (Certificates_step sample_JSON_parse sample_stringify
           [certA, certB, certC] sample_trim HandleSaveEdit
           (sample_run [HandleEdit certB, SetEditName ''  Mail relay '']))
       = [certA, certB\<lparr>name := ''Mail relay''\<rparr>, certC]
   \<and> localStorage
        (Certificates_step sample_JSON_parse sample_stringify
           [certA, certB, certC] sample_trim HandleSaveEdit
           (sample_run [HandleEdit certB, SetEditName ''  Mail relay ''])) CACHE_KEY
       = Some ''[cert-1:API Gateway;cert-2:Mail relay;cert-3:Intranet;]''
   \<and> editingCert
        (Certificates_step sample_JSON_parse sample_stringify
           [certA, certB, certC] sample_trim HandleSaveEdit
           (sample_run [HandleEdit certB, SetEditName ''  Mail relay ''])) = None"
proof -
  let ?s = "sample_run [HandleEdit certB, SetEditName ''  Mail relay '']"
  have e: "editingCert ?s = Some certB" by (simp add: sample_run_editing)
  have n: "sample_trim (editName ?s) = ''Mail relay''" by (simp add: sample_run_editing trim_samples)
  then have n': "sample_trim (editName ?s) \<noteq> []" by simp
  have c: "certificates ?s = [certA, certB, certC]"
    "localStorage ?s = [CACHE_KEY \<mapsto> sample_stringify [certA, certB, certC]]"
    by (simp_all add: sample_run_editing)
  have ids: "cert_id certA \<noteq> cert_id certB" "cert_id certC \<noteq> cert_id certB"
    by (simp_all add: certA_def certB_def certC_def)
  from saveEdit_renames_and_persists [where s = ?s and T = sample_trim
      and P = sample_JSON_parse and S = sample_stringify and D = "[certA, certB, certC]",
      OF e n' refl]
  show ?thesis
    unfolding n c using e ids by (simp add: sample_json)
qed

text \<open>
  Claim C7. Whatever the platform's \<^verbatim>\<open>trim\<close> strips (\<open>T\<close> below), when the
  save is confirmed with a name that is empty once trimmed, nothing happens: the handler returns the state it was given, and so does the whole step with
  its effects. The collection, the storage, the error cell and the toasts are those of
  before, and the drawer stays open.
\<close>

theorem saveEdit_empty_name_noop:
  assumes "T (editName s) = []"
  shows "handleSaveEdit T s = s \<and> Certificates_step P S D T HandleSaveEdit s = s"
  using assms by (simp add: Certificates_step_save handleSaveEdit_def split: option.splits)

theorem saveEdit_empty_name_noop_witness:
  "sample_trim (editName (sample_run [HandleEdit certB, SetEditName ''   ''])) = []
   \<and> editingCert (sample_run [HandleEdit certB, SetEditName ''   '']) = Some certB
   \<and> Certificates_step sample_JSON_parse sample_stringify
        [certA, certB, certC] sample_trim HandleSaveEdit (sample_run [HandleEdit certB, SetEditName ''   ''])
       = sample_run [HandleEdit certB, SetEditName ''   '']"
proof -
  let ?s = "sample_run [HandleEdit certB, SetEditName ''   '']"
  have n: "sample_trim (editName ?s) = []" by (simp add: sample_run_editing trim_samples)
  have e: "editingCert ?s = Some certB" by (simp add: sample_run_editing)
  from saveEdit_empty_name_noop [where s = ?s and T = sample_trim and P = sample_JSON_parse
      and S = sample_stringify and D = "[certA, certB, certC]", OF n] n e
  show ?thesis by simp
qed


subsection \<open>The page index follows the filters\<close>

lemma Certificates_step_DebounceSettled:
  "Certificates_step P S D T DebounceSettled s =
     (if searchQuery s \<noteq> debouncedSearch s
      then s\<lparr>debouncedSearch := searchQuery s, currentPage := 1\<rparr> else s)"
  by (simp add: Certificates_step_def Certificates_effects_def)

lemma Certificates_step_SetDomainFilter:
  "Certificates_step P S D T (SetDomainFilter d) s =
     (if d \<noteq> domainFilter s then s\<lparr>domainFilter := d, currentPage := 1\<rparr> else s)"
  by (simp add: Certificates_step_def Certificates_effects_def)

lemma Certificates_step_SetPageSize:
  "Certificates_step P S D T (SetPageSize n) s =
     (if n \<noteq> pageSize s then s\<lparr>pageSize := n, currentPage := 1\<rparr> else s)"
  by (simp add: Certificates_step_def Certificates_effects_def)

lemma sample_run_paged:
  "sample_run [SetPageSize 1, SetCurrentPage 3, SetSearchQuery ''sectigo''] =
     \<lparr>certificates = [certA, certB, certC], loading = False, error = None,
      searchQuery = ''sectigo'', debouncedSearch = [], domainFilter = ''all'',
      sortDirection = Asc, currentPage = 3, pageSize = 1, selectedCert = None,
      editingCert = None, editName = [],
      localStorage = [CACHE_KEY \<mapsto> sample_stringify [certA, certB, certC]],
      toasts = []\<rparr>"
  by (simp add: cert_run_simps)

lemmas filter_eval_simps =
  Certificates_filteredData_def Certificates_compare_def Certificates_search_def
  sample_getTime_def Array_sort_def SortCompare_def num_minus_def sample_toLowerCase_def
  ascii_lower_def prefix_def certA_def certB_def certC_def

text \<open>
  Claim C8. When the debounced search text, the domain filter or the page size takes a
  new value, the page index is 1 after the step, and the visible slice is the first page
  of the collection filtered and sorted with the new value. With a positive page size
  the first page is the first \<open>pageSize\<close> records.
\<close>

theorem filter_change_resets_page:
  "(searchQuery s \<noteq> debouncedSearch s \<longrightarrow>
      currentPage (Certificates_step P S D T DebounceSettled s) = 1
      \<and> Certificates_visible G L (Certificates_step P S D T DebounceSettled s)
          = paginatedData
              (Certificates_filteredData G L (certificates s) (searchQuery s) (domainFilter s)
                 (sortDirection s)) 1 (pageSize s))
   \<and> (d \<noteq> domainFilter s \<longrightarrow>
      currentPage (Certificates_step P S D T (SetDomainFilter d) s) = 1
      \<and> Certificates_visible G L (Certificates_step P S D T (SetDomainFilter d) s)
          = paginatedData
              (Certificates_filteredData G L (certificates s) (debouncedSearch s) d (sortDirection s))
              1 (pageSize s))
   \<and> (n \<noteq> pageSize s \<longrightarrow>
      currentPage (Certificates_step P S D T (SetPageSize n) s) = 1
      \<and> Certificates_visible G L (Certificates_step P S D T (SetPageSize n) s)
          = paginatedData
              (Certificates_filteredData G L (certificates s) (debouncedSearch s) (domainFilter s)
                 (sortDirection s)) 1 n)
   \<and> (0 < pageSize s \<longrightarrow>
      paginatedData (Certificates_filtered G L s) 1 (pageSize s)
        = take (nat (pageSize s)) (Certificates_filtered G L s))"
  by (simp add: Certificates_step_DebounceSettled Certificates_step_SetDomainFilter
      Certificates_step_SetPageSize Certificates_visible_def Certificates_filtered_def slice_page)


theorem filter_change_resets_page_witness:
  "currentPage (sample_run [SetPageSize 1, SetCurrentPage 3, SetSearchQuery ''sectigo'']) = 3
   \<and> Certificates_visible sample_getTime sample_toLowerCase
        (sample_run [SetPageSize 1, SetCurrentPage 3, SetSearchQuery ''sectigo'']) = [certC]
   \<and> currentPage
        (Certificates_step sample_JSON_parse sample_stringify
           [certA, certB, certC] sample_trim DebounceSettled
           (sample_run [SetPageSize 1, SetCurrentPage 3, SetSearchQuery ''sectigo''])) = 1
   \<and> Certificates_visible sample_getTime sample_toLowerCase
        (Certificates_step sample_JSON_parse sample_stringify
           [certA, certB, certC] sample_trim DebounceSettled
           (sample_run [SetPageSize 1, SetCurrentPage 3, SetSearchQuery ''sectigo''])) = [certB]
   \<and> Certificates_visible sample_getTime sample_toLowerCase
        (Certificates_step sample_JSON_parse sample_stringify
           [certA, certB, certC] sample_trim (SetDomainFilter ''intra.corp.net'')
           (sample_run [SetPageSize 1, SetCurrentPage 3, SetSearchQuery ''sectigo''])) = [certC]
   \<and> Certificates_visible sample_getTime sample_toLowerCase
        (Certificates_step sample_JSON_parse sample_stringify
           [certA, certB, certC] sample_trim (SetPageSize 2)
           (sample_run [SetPageSize 1, SetCurrentPage 3, SetSearchQuery ''sectigo'']))
       = [certB, certA]"
proof -
  let ?s = "sample_run [SetPageSize 1, SetCurrentPage 3, SetSearchQuery ''sectigo'']"
  have f: "searchQuery ?s = ''sectigo''" "debouncedSearch ?s = []" "domainFilter ?s = ''all''"
    "pageSize ?s = 1" "currentPage ?s = 3" "certificates ?s = [certA, certB, certC]"
    "sortDirection ?s = Asc"
    by (simp_all add: sample_run_paged)
  have all: "Certificates_filteredData sample_getTime sample_toLowerCase [certA, certB, certC] [] ''all'' Asc
      = [certB, certA, certC]"
    by (simp add: filter_eval_simps)
  have searched: "Certificates_filteredData sample_getTime sample_toLowerCase [certA, certB, certC] ''sectigo''
      ''all'' Asc = [certB, certC]"
    by (simp add: filter_eval_simps)
  have domained: "Certificates_filteredData sample_getTime sample_toLowerCase [certA, certB, certC] []
      ''intra.corp.net'' Asc = [certC]"
    by (simp add: filter_eval_simps)
  have before: "Certificates_visible sample_getTime sample_toLowerCase ?s = [certC]"
    by (simp add: Certificates_visible_def Certificates_filtered_def f all paginatedData_def
        slice_def)
  from filter_change_resets_page [where s = ?s and P = sample_JSON_parse
      and S = sample_stringify and D = "[certA, certB, certC]" and T = sample_trim
      and G = sample_getTime and L = sample_toLowerCase and d = "''intra.corp.net''" and n = 2]
  show ?thesis
    unfolding f all searched domained using before
    by (simp add: paginatedData_def slice_def)
qed

subsection \<open>The cached snapshot is never emptied\<close>

lemma snapshot_inv_effects:
  assumes "snapshot_inv S s"
  shows "snapshot_inv S (Certificates_effects S before False s)"
  using assms by (simp add: snapshot_inv_def Certificates_effects_def Let_def)

lemma snapshot_inv_step:
  assumes "snapshot_inv S s"
  shows "snapshot_inv S (Certificates_step P S D T e s)"
proof (cases e)
  case LoadResolved
  with assms show ?thesis
    by (simp add: Certificates_step_def snapshot_inv_def Certificates_effects_def)
next
  case HandleSaveEdit
  show ?thesis
  proof (cases "editingCert s \<noteq> None \<and> T (editName s) \<noteq> []")
    case True
    with assms show ?thesis
      unfolding HandleSaveEdit Certificates_step_save
      by (auto simp: snapshot_inv_def Certificates_persist_def handleSaveEdit_def)
  next
    case False
    with assms show ?thesis
      unfolding HandleSaveEdit Certificates_step_save by auto
  qed
next
  case (SetSearchQuery q)
  then show ?thesis
    using snapshot_inv_effects [of S "s\<lparr>searchQuery := q\<rparr>" s] assms
    by (simp add: Certificates_step_def snapshot_inv_def)
next
  case DebounceSettled
  then show ?thesis
    using snapshot_inv_effects [of S "s\<lparr>debouncedSearch := searchQuery s\<rparr>" s] assms
    by (simp add: Certificates_step_def snapshot_inv_def)
next
  case (SetDomainFilter d)
  then show ?thesis
    using snapshot_inv_effects [of S "s\<lparr>domainFilter := d\<rparr>" s] assms
    by (simp add: Certificates_step_def snapshot_inv_def)
next
  case ToggleSort
  then show ?thesis
    using snapshot_inv_effects
      [of S "s\<lparr>sortDirection := (if sortDirection s = Asc then Desc else Asc)\<rparr>" s] assms
    by (simp add: Certificates_step_def snapshot_inv_def)
next
  case (SetCurrentPage n)
  then show ?thesis
    using snapshot_inv_effects [of S "s\<lparr>currentPage := n\<rparr>" s] assms
    by (simp add: Certificates_step_def snapshot_inv_def)
next
  case (SetPageSize n)
  then show ?thesis
    using snapshot_inv_effects [of S "s\<lparr>pageSize := n\<rparr>" s] assms
    by (simp add: Certificates_step_def snapshot_inv_def)
next
  case (SetSelectedCert c)
  then show ?thesis
    using snapshot_inv_effects [of S "s\<lparr>selectedCert := c\<rparr>" s] assms
    by (simp add: Certificates_step_def snapshot_inv_def)
next
  case (HandleEdit c)
  then show ?thesis
    using snapshot_inv_effects [of S "handleEdit c s" s] assms
    by (simp add: Certificates_step_def snapshot_inv_def handleEdit_def)
next
  case (SetEditName n)
  then show ?thesis
    using snapshot_inv_effects [of S "s\<lparr>editName := n\<rparr>" s] assms
    by (simp add: Certificates_step_def snapshot_inv_def)
next
  case CloseDrawer
  then show ?thesis
    using snapshot_inv_effects [of S "s\<lparr>editingCert := None\<rparr>" s] assms
    by (simp add: Certificates_step_def snapshot_inv_def)
qed

lemma snapshot_inv_run:
  "snapshot_inv S s \<Longrightarrow> snapshot_inv S (Certificates_run P S D T es s)"
  unfolding Certificates_run_def
  by (induction es arbitrary: s) (simp_all add: snapshot_inv_step)

lemma snapshot_inv_activate:
  assumes "certificates (Certificates_activate P S D T store) \<noteq> []"
  shows "snapshot_inv S (Certificates_activate P S D T store)"
  using assms unfolding Certificates_activation
  by (auto simp: snapshot_inv_def Certificates_effects_def Certificates_loadData_def
      Certificates_persist_def Certificates_mount_def Let_def split: option.splits if_splits)

lemma step_keeps_loaded:
  "\<not> loading s \<Longrightarrow> \<not> loading (Certificates_step P S D T e s)"
  by (cases e)
    (simp_all add: Certificates_step_def Certificates_effects_def Certificates_persist_def
      handleEdit_def handleSaveEdit_def Let_def split: option.splits)

lemma step_storage_write:
  assumes "D \<noteq> [] \<or> \<not> loading s"
  shows "localStorage (Certificates_step P S D T e s) = localStorage s
    \<or> (certificates (Certificates_step P S D T e s) \<noteq> []
       \<and> localStorage (Certificates_step P S D T e s)
           = (localStorage s)(CACHE_KEY \<mapsto> S (certificates (Certificates_step P S D T e s))))"
proof (cases e)
  case LoadResolved
  with assms show ?thesis
    by (auto simp: Certificates_step_def Certificates_effects_def Certificates_persist_def
        Certificates_loadData_def Let_def split: option.splits)
next
  case HandleSaveEdit
  show ?thesis
    unfolding HandleSaveEdit Certificates_step_save
    by (auto simp: Certificates_persist_def handleSaveEdit_def split: option.splits)
qed (simp_all add: Certificates_step_def Certificates_effects_def handleEdit_def Let_def)

lemma snapshot_stays:
  assumes "\<not> loading s" and "xs \<noteq> []" and "localStorage s CACHE_KEY = Some (S xs)"
  shows "\<exists>ys. ys \<noteq> [] \<and> localStorage (Certificates_run P S D T es s) CACHE_KEY = Some (S ys)"
  using assms unfolding Certificates_run_def
proof (induction es arbitrary: s xs)
  case Nil
  then show ?case by auto
next
  case (Cons e es)
  let ?s = "Certificates_step P S D T e s"
  have l: "\<not> loading ?s" using Cons.prems(1) by (rule step_keeps_loaded)
  from step_storage_write [where D = D and s = s and P = P and S = S and T = T and e = e]
    Cons.prems
  obtain zs where "zs \<noteq> []" "localStorage ?s CACHE_KEY = Some (S zs)"
    by fastforce
  with l Cons.IH [of ?s zs] show ?case by simp
qed

text \<open>
  Claim C10, amended. The effect that saves the collection does nothing when the
  collection is empty. A step of the page either leaves the storage as it was or writes,
  under the cache key, the serialisation of the collection it ends with, which is then
  not empty: so it is for every step once loading has ended, and for the load itself when
  the bundled dataset is not empty. Hence a cached snapshot that is the serialisation of
  a collection that is not empty stays one through any sequence of events after the load;
  and after a load that adopted a collection that is not empty, in every state reached
  by any sequence of events, the collection is not empty and the cached string is its
  serialisation, no error is set and loading has ended.

  As stated, for every state reachable after a successful first load, the claim fails.
  A cached snapshot that is the serialisation of the empty collection parses, so the load
  succeeds, adopts the empty collection and leaves the snapshot as it is: empty, in
  every state reached afterwards. And the write of \<^verbatim>\<open>loadData\<close> itself has no
  guard: with an empty bundled dataset and nothing cached it writes the serialisation of
  the empty collection.
\<close>

theorem persisted_snapshot_nonempty:
  assumes loaded: "s0 = Certificates_activate P S D T store"
    and nonempty: "certificates s0 \<noteq> []"
    and reached: "s = Certificates_run P S D T es s0"
  shows "certificates s \<noteq> []
    \<and> localStorage s CACHE_KEY = Some (S (certificates s))
    \<and> error s = None \<and> \<not> loading s
    \<and> (certificates u = [] \<longrightarrow> Certificates_persist S u = u)
    \<and> (D \<noteq> [] \<or> \<not> loading t \<longrightarrow>
         localStorage (Certificates_step P S D T e t) = localStorage t
         \<or> (certificates (Certificates_step P S D T e t) \<noteq> []
            \<and> localStorage (Certificates_step P S D T e t)
                = (localStorage t)(CACHE_KEY \<mapsto> S (certificates (Certificates_step P S D T e t)))))
    \<and> (\<not> loading t \<and> xs \<noteq> [] \<and> localStorage t CACHE_KEY = Some (S xs) \<longrightarrow>
         (\<exists>ys. ys \<noteq> []
            \<and> localStorage (Certificates_run P S D T es t) CACHE_KEY = Some (S ys)))"
proof -
  have "snapshot_inv S s0"
    using nonempty unfolding loaded by (rule snapshot_inv_activate)
  then have "snapshot_inv S s"
    unfolding reached by (rule snapshot_inv_run)
  then have inv: "certificates s \<noteq> [] \<and> localStorage s CACHE_KEY = Some (S (certificates s))
    \<and> error s = None \<and> \<not> loading s"
    by (simp add: snapshot_inv_def)
  have guard: "certificates u = [] \<longrightarrow> Certificates_persist S u = u"
    by (simp add: Certificates_persist_def)
  have writes: "D \<noteq> [] \<or> \<not> loading t \<longrightarrow>
         localStorage (Certificates_step P S D T e t) = localStorage t
         \<or> (certificates (Certificates_step P S D T e t) \<noteq> []
            \<and> localStorage (Certificates_step P S D T e t)
                = (localStorage t)(CACHE_KEY \<mapsto> S (certificates (Certificates_step P S D T e t))))"
    using step_storage_write [where D = D and s = t and P = P and S = S and T = T and e = e]
    by blast
  have stays: "\<not> loading t \<and> xs \<noteq> [] \<and> localStorage t CACHE_KEY = Some (S xs) \<longrightarrow>
         (\<exists>ys. ys \<noteq> []
            \<and> localStorage (Certificates_run P S D T es t) CACHE_KEY = Some (S ys))"
    using snapshot_stays [where s = t and xs = xs and S = S and P = P and D = D and T = T
        and es = es]
    by blast
  from inv guard writes stays show ?thesis by blast
qed

theorem persisted_snapshot_nonempty_witness:
  "certificates (Certificates_activate sample_JSON_parse sample_stringify
      [certA, certB, certC] sample_trim Map.empty) = [certA, certB, certC]
   \<and> certificates
        (Certificates_run sample_JSON_parse sample_stringify
           [certA, certB, certC] sample_trim [HandleEdit certB, SetEditName ''  Mail relay '', HandleSaveEdit]
           (Certificates_activate sample_JSON_parse sample_stringify
              [certA, certB, certC] sample_trim Map.empty))
       = [certA, certB\<lparr>name := ''Mail relay''\<rparr>, certC]
   \<and> localStorage
        (Certificates_run sample_JSON_parse sample_stringify
           [certA, certB, certC] sample_trim [HandleEdit certB, SetEditName ''  Mail relay '', HandleSaveEdit]
           (Certificates_activate sample_JSON_parse sample_stringify
              [certA, certB, certC] sample_trim Map.empty)) CACHE_KEY
       = Some ''[cert-1:API Gateway;cert-2:Mail relay;cert-3:Intranet;]''
   \<and> Certificates_persist sample_stringify (Certificates_mount [CACHE_KEY \<mapsto> ''[cert-3:Intranet;]''])
       = Certificates_mount [CACHE_KEY \<mapsto> ''[cert-3:Intranet;]'']"
proof -
  let ?init = "Certificates_activate sample_JSON_parse sample_stringify
      [certA, certB, certC] sample_trim Map.empty"
  let ?es = "[HandleEdit certB, SetEditName ''  Mail relay '', HandleSaveEdit]"
  let ?s = "Certificates_run sample_JSON_parse sample_stringify
           [certA, certB, certC] sample_trim ?es ?init"
  have c0: "certificates ?init = [certA, certB, certC]" "\<not> loading ?init"
    "localStorage ?init CACHE_KEY = Some (sample_stringify [certA, certB, certC])"
    by (simp_all add: Certificates_activate_def cert_run_simps)
  then have ne: "certificates ?init \<noteq> []" by simp
  have ids: "cert_id certA \<noteq> cert_id certB" "cert_id certC \<noteq> cert_id certB"
    by (simp_all add: certA_def certB_def certC_def)
  have c: "certificates ?s = [certA, certB\<lparr>name := ''Mail relay''\<rparr>, certC]"
    using ids
    by (simp add: Certificates_activate_def cert_run_simps handleSaveEdit_def trim_samples Let_def)
  have u: "certificates (Certificates_mount [CACHE_KEY \<mapsto> ''[cert-3:Intranet;]'']) = []"
    by (simp add: Certificates_mount_def)
  from persisted_snapshot_nonempty [OF refl ne refl, where es = ?es and t = ?init
      and xs = "[certA, certB, certC]" and e = HandleSaveEdit
      and u = "Certificates_mount [CACHE_KEY \<mapsto> ''[cert-3:Intranet;]'']"]
  show ?thesis
    unfolding c using c0 u by (simp add: sample_json)
qed

theorem empty_snapshot_counterexample:
  "error (Certificates_activate sample_JSON_parse sample_stringify [certA, certB, certC]
      sample_trim [CACHE_KEY \<mapsto> ''[]'']) = None
   \<and> \<not> loading (Certificates_activate sample_JSON_parse sample_stringify [certA, certB, certC]
      sample_trim [CACHE_KEY \<mapsto> ''[]''])
   \<and> certificates
        (Certificates_run sample_JSON_parse sample_stringify [certA, certB, certC] sample_trim
           [ToggleSort, SetPageSize 10, HandleSaveEdit]
           (Certificates_activate sample_JSON_parse sample_stringify [certA, certB, certC]
              sample_trim [CACHE_KEY \<mapsto> ''[]''])) = []
   \<and> localStorage
        (Certificates_run sample_JSON_parse sample_stringify [certA, certB, certC] sample_trim
           [ToggleSort, SetPageSize 10, HandleSaveEdit]
           (Certificates_activate sample_JSON_parse sample_stringify [certA, certB, certC]
              sample_trim [CACHE_KEY \<mapsto> ''[]''])) CACHE_KEY = Some ''[]''
   \<and> sample_JSON_parse ''[]'' = Some []
   \<and> sample_stringify [] = ''[]''
   \<and> localStorage
        (Certificates_activate sample_JSON_parse sample_stringify [] sample_trim Map.empty)
        CACHE_KEY = Some ''[]''"
  by (simp add: Certificates_activate_def Certificates_run_def Certificates_step_def
      Certificates_effects_def Certificates_loadData_def Certificates_persist_def
      Certificates_mount_def handleSaveEdit_def sample_JSON_parse_def sample_stringify_def
      CACHE_KEY_def Let_def)


subsection \<open>Row expansion\<close>

text \<open>
  Claim C9. For every expansion set and every identifier, toggling the identifier twice
  in succession gives the set back, and one toggle flips the membership of that
  identifier and of no other.
\<close>

theorem toggleRow_involution_flip:
  "toggleRow ident (toggleRow ident S) = S
   \<and> (ident \<in> toggleRow ident S \<longleftrightarrow> ident \<notin> S)
   \<and> (\<forall>other. other \<noteq> ident \<longrightarrow> (other \<in> toggleRow ident S \<longleftrightarrow> other \<in> S))"
  by (auto simp: toggleRow_def)

theorem toggleRow_involution_flip_witness:
  "toggleRow ''log-2'' (toggleRow ''log-2'' {''log-1''}) = {''log-1''}
   \<and> ''log-2'' \<in> toggleRow ''log-2'' {''log-1''}
   \<and> ''log-1'' \<in> toggleRow ''log-2'' {''log-1''}
   \<and> ''log-2'' \<notin> toggleRow ''log-2'' (toggleRow ''log-2'' {''log-1''})"
  using toggleRow_involution_flip [of "''log-2''" "{''log-1''}"]
  by simp

subsection \<open>Further properties of the pages\<close>

text \<open>
  Loading twice gives the same collection: when the first activation ends
  without an error and the serialisation of the collection it adopted is a text, not
  empty, that parses back to that collection, a second activation over the storage the
  first one left adopts the same collection and leaves the storage as it is.
\<close>

theorem load_twice_same:
  assumes first: "s1 = Certificates_activate P S D T store"
    and ok: "error s1 = None"
    and roundtrip: "P (S (certificates s1)) = Some (certificates s1)"
    and written: "S (certificates s1) \<noteq> []"
    and second: "s2 = Certificates_activate P S D T (localStorage s1)"
  shows "certificates s2 = certificates s1 \<and> error s2 = None
    \<and> localStorage s2 = localStorage s1"
proof (cases "store CACHE_KEY = None \<or> store CACHE_KEY = Some []")
  case True
  note s1 = activate_absent [where store = store and P = P and S = S and D = D and T = T, OF True,
      folded first]
  with roundtrip written have c: "localStorage s1 CACHE_KEY = Some (S D)" "S D \<noteq> []"
    "P (S D) = Some D"
    by simp_all
  note s2 = activate_cached [where store = "localStorage s1" and cached = "S (certificates s1)"
      and P = P and parsed = "certificates s1" and S = S and D = D and T = T, folded second]
  from s1 c s2 show ?thesis by (auto simp: fun_upd_idem_iff)
next
  case False
  then obtain cached where cached: "store CACHE_KEY = Some cached" "cached \<noteq> []"
    by auto
  show ?thesis
  proof (cases "P cached")
    case None
    from activate_unparseable [where store = store and cached = cached and P = P and S = S
        and D = D and T = T, OF cached None, folded first] ok
    show ?thesis by simp
  next
    case (Some parsed)
    note s1 = activate_cached [where store = store and cached = cached and P = P
        and parsed = parsed and S = S and D = D and T = T, OF cached Some, folded first]
    show ?thesis
    proof (cases "parsed = []")
      case True
      with s1 have st: "localStorage s1 = store" by simp
      with first second have "s2 = s1" by simp
      with ok show ?thesis by simp
    next
      case False
      with s1 roundtrip written
      have c: "localStorage s1 CACHE_KEY = Some (S parsed)" "S parsed \<noteq> []"
        "P (S parsed) = Some parsed"
        by simp_all
      note s2 = activate_cached [where store = "localStorage s1" and cached = "S (certificates s1)"
      and P = P and parsed = "certificates s1" and S = S and D = D and T = T, folded second]
      from s1 c s2 False show ?thesis by (auto simp: fun_upd_idem_iff)
    qed
  qed
qed

theorem load_twice_same_witness:
  "certificates (Certificates_activate sample_JSON_parse sample_stringify [certA, certB] sample_trim Map.empty)
     = [certA, certB]
   \<and> certificates
        (Certificates_activate sample_JSON_parse sample_stringify [certA, certB] sample_trim
           (localStorage
              (Certificates_activate sample_JSON_parse sample_stringify [certA, certB] sample_trim Map.empty)))
     = [certA, certB]
   \<and> localStorage
        (Certificates_activate sample_JSON_parse sample_stringify [certA, certB] sample_trim
           (localStorage
              (Certificates_activate sample_JSON_parse sample_stringify [certA, certB] sample_trim Map.empty)))
     = [CACHE_KEY \<mapsto> ''[cert-1:API Gateway;cert-2:Mail;]'']"
proof -
  let ?s1 = "Certificates_activate sample_JSON_parse sample_stringify [certA, certB] sample_trim Map.empty"
  have a: "certificates ?s1 = [certA, certB]" "error ?s1 = None"
    "localStorage ?s1 = [CACHE_KEY \<mapsto> sample_stringify [certA, certB]]"
    by (simp_all add: activate_absent)
  have j: "sample_stringify [certA, certB] = ''[cert-1:API Gateway;cert-2:Mail;]''"
    by (simp add: sample_stringify_def certA_def certB_def)
  have r: "sample_JSON_parse (sample_stringify (certificates ?s1)) = Some (certificates ?s1)"
    "sample_stringify (certificates ?s1) \<noteq> []"
    unfolding a by (simp_all add: sample_JSON_parse_def j)
  from load_twice_same [OF refl a(2) r refl] a j show ?thesis by simp
qed

text \<open>
  The filtered result of the audit log page is, with multiplicities, the
  collection restricted to the records whose action type is the selected one (or all of
  them for \<^verbatim>\<open>all\<close>) and whose timestamp lies within the bounds of the date range that
  are set, both bounds included. With no date range and the action type
  \<^verbatim>\<open>certificate.renew\<close> the samples give the two records of that type, newest first.
\<close>

theorem AuditLogs_filteredData_contains:
  "mset (AuditLogs_filteredData G ls a dr)
     = filter_mset (\<lambda>l. (a = ''all'' \<or> actionType l = a)
                       \<and> (case range_from dr of None \<Rightarrow> True
                           | Some lo \<Rightarrow> num_le (Some lo) (G (timestamp l)))
                       \<and> (case range_to dr of None \<Rightarrow> True
                           | Some hi \<Rightarrow> num_le (G (timestamp l)) (Some hi))) (mset ls)"
  by (simp add: AuditLogs_filteredData_sort mset_Array_sort)

theorem AuditLogs_filteredData_contains_witness:
  "AuditLogs_filteredData sample_getTime [logA, logB, logC] ''certificate.renew''
     \<lparr>range_from = None, range_to = None\<rparr> = [logC, logA]
   \<and> mset [logC, logA] = filter_mset (\<lambda>l. actionType l = ''certificate.renew'')
        (mset [logA, logB, logC])"
proof -
  have e: "AuditLogs_filteredData sample_getTime [logA, logB, logC] ''certificate.renew''
     \<lparr>range_from = None, range_to = None\<rparr> = [logC, logA]"
    by (simp add: sample_simps)
  from AuditLogs_filteredData_contains [of sample_getTime "[logA, logB, logC]"
      "''certificate.renew''" "\<lparr>range_from = None, range_to = None\<rparr>"]
  show ?thesis unfolding e by simp
qed

lemma step_keeps_ids:
  "\<not> loading s \<Longrightarrow>
     map cert_id (certificates (Certificates_step P S D T e s)) = map cert_id (certificates s)"
  by (cases e)
    (auto simp: Certificates_step_def Certificates_effects_def Certificates_persist_def
      handleEdit_def handleSaveEdit_def Let_def comp_def split: option.splits)

text \<open>
  No record is ever deleted: once loading has ended, every sequence of
  events leaves the identifiers of the certificates, in order, as they were, and so the
  number of records.
\<close>

theorem no_record_deleted:
  assumes "\<not> loading s"
  shows "map cert_id (certificates (Certificates_run P S D T es s)) = map cert_id (certificates s)
    \<and> length (certificates (Certificates_run P S D T es s)) = length (certificates s)"
proof -
  have "\<not> loading s \<Longrightarrow>
      map cert_id (certificates (Certificates_run P S D T es s)) = map cert_id (certificates s)"
    unfolding Certificates_run_def
  proof (induction es arbitrary: s)
    case Nil
    then show ?case by simp
  next
    case (Cons e es)
    from Cons.prems have "\<not> loading (Certificates_step P S D T e s)" by (rule step_keeps_loaded)
    from Cons.IH [OF this]
      step_keeps_ids [OF Cons.prems, where P = P and S = S and D = D and T = T and e = e]
    show ?case by simp
  qed
  with assms have ids: "map cert_id (certificates (Certificates_run P S D T es s))
      = map cert_id (certificates s)" by simp
  then have "length (certificates (Certificates_run P S D T es s)) = length (certificates s)"
    by (metis length_map)
  with ids show ?thesis by simp
qed


theorem no_record_deleted_witness:
  "\<not> loading (sample_run [])
   \<and> map cert_id
        (certificates
           (Certificates_run sample_JSON_parse sample_stringify [certA, certB, certC] sample_trim
              [HandleEdit certB, SetEditName ''  Mail relay '', HandleSaveEdit, ToggleSort]
              (sample_run [])))
     = [''cert-1'', ''cert-2'', ''cert-3'']"
proof -
  have l: "\<not> loading (sample_run [])" "certificates (sample_run []) = [certA, certB, certC]"
    by (simp_all add: cert_run_simps)
  from no_record_deleted [OF l(1), where P = sample_JSON_parse and S = sample_stringify
      and D = "[certA, certB, certC]" and T = sample_trim
      and es = "[HandleEdit certB, SetEditName ''  Mail relay '', HandleSaveEdit, ToggleSort]"] l
  show ?thesis by (simp add: certA_def certB_def certC_def)
qed


end
